theory Spec2Isabelle
  imports Complex_Main "HOL-Library.Sublist"
begin

section \<open>JavaScript numbers\<close>

text \<open>
  Every \<^verbatim>\<open>number\<close> of the component (balances, amounts, rates) is an IEEE 754
  binary64 value. A value is NaN, one of the two infinities, or a finite rational. The
  arithmetic below computes the exact rational result and rounds it once, to nearest with
  ties to even, as the language does. The sign of a zero is not kept: the component never
  divides by a zero and never prints one, and \<^verbatim>\<open>-0\<close> and \<^verbatim>\<open>0\<close> compare
  equal and are both falsy.
\<close>

datatype number = NaN | PInf | NInf | Fin rat

text \<open>The number of binary digits of a positive integer.\<close>

function bits :: "int \<Rightarrow> int" where
  "bits n = (if n \<le> 0 then 0 else 1 + bits (n div 2))"
  by pat_completeness auto
termination
  by (relation "measure nat") auto

declare bits.simps [simp del]

text \<open>
  For \<open>0 < x\<close>, \<open>ilog2 x\<close> is the exponent \<open>e\<close> with \<open>2^e \<le> x < 2^(e+1)\<close>
  (\<open>powi\<close> is the power with an integer exponent).
\<close>

definition ilog2 :: "rat \<Rightarrow> int" where
  "ilog2 x = (if 1 \<le> x then bits \<lfloor>x\<rfloor> - 1 else - bits (\<lceil>1 / x\<rceil> - 1))"

text \<open>Rounding a non-negative rational to an integer, ties to the even neighbour.\<close>

definition round_even :: "rat \<Rightarrow> int" where
  "round_even x =
     (let n = \<lfloor>x\<rfloor>; d = x - of_int n
      in if d < 1 / 2 then n else if 1 / 2 < d then n + 1 else if even n then n else n + 1)"

text \<open>
  \<open>fl x\<close> is the binary64 value of the exact result \<open>x\<close>: 53 significant bits, the
  least exponent \<open>-1022\<close> (below it the spacing stays \<open>2^-1074\<close>, so small results
  lose bits and may round to zero), and overflow to an infinity from \<open>2^1024\<close> on.
\<close>

definition fl :: "rat \<Rightarrow> number" where
  "fl x =
     (if x = 0 then Fin 0
      else
        let a = \<bar>x\<bar>;
            e = max (ilog2 a) (- 1022);
            q = 2 powi (e - 52);
            y = of_int (round_even (a / q)) * q
        in if 2 powi 1024 \<le> y then (if 0 < x then PInf else NInf)
           else Fin (if 0 < x then y else - y))"

text \<open>The spacing of the binary64 values around \<open>x\<close>, which the rounding of \<open>x\<close> uses.\<close>

definition quantum :: "rat \<Rightarrow> rat" where
  "quantum x = 2 powi (max (ilog2 \<bar>x\<bar>) (- 1022) - 52)"

fun num_neg :: "number \<Rightarrow> number" where
  "num_neg NaN = NaN"
| "num_neg PInf = NInf"
| "num_neg NInf = PInf"
| "num_neg (Fin x) = Fin (- x)"

fun num_add :: "number \<Rightarrow> number \<Rightarrow> number" where
  "num_add NaN _ = NaN"
| "num_add _ NaN = NaN"
| "num_add PInf NInf = NaN"
| "num_add NInf PInf = NaN"
| "num_add PInf _ = PInf"
| "num_add _ PInf = PInf"
| "num_add NInf _ = NInf"
| "num_add _ NInf = NInf"
| "num_add (Fin x) (Fin y) = fl (x + y)"

definition num_sub :: "number \<Rightarrow> number \<Rightarrow> number" where
  "num_sub a b = num_add a (num_neg b)"

text \<open>The sign of a number: \<open>1\<close>, \<open>0\<close> or \<open>-1\<close>; NaN has none.\<close>

fun num_sgn :: "number \<Rightarrow> int" where
  "num_sgn NaN = 0"
| "num_sgn PInf = 1"
| "num_sgn NInf = - 1"
| "num_sgn (Fin x) = (if 0 < x then 1 else if x < 0 then - 1 else 0)"

definition signed_inf :: "int \<Rightarrow> number" where
  "signed_inf s = (if 0 < s then PInf else if s < 0 then NInf else NaN)"

fun num_mul :: "number \<Rightarrow> number \<Rightarrow> number" where
  "num_mul NaN _ = NaN"
| "num_mul _ NaN = NaN"
| "num_mul (Fin x) (Fin y) = fl (x * y)"
| "num_mul a b = signed_inf (num_sgn a * num_sgn b)"

text \<open>
  Division; a zero divisor counts as \<^verbatim>\<open>+0\<close>. In the component the divisor is the
  parsed amount, which is strictly positive wherever a division is made.
\<close>

fun num_div :: "number \<Rightarrow> number \<Rightarrow> number" where
  "num_div NaN _ = NaN"
| "num_div _ NaN = NaN"
| "num_div (Fin x) (Fin y) = (if y = 0 then signed_inf (num_sgn (Fin x)) else fl (x / y))"
| "num_div (Fin x) _ = Fin 0"
| "num_div a (Fin y) = signed_inf (num_sgn a * (if y < 0 then - 1 else 1))"
| "num_div _ _ = NaN"

text \<open>Comparisons: every comparison with NaN is false.\<close>

fun num_lt :: "number \<Rightarrow> number \<Rightarrow> bool" where
  "num_lt NaN _ = False"
| "num_lt _ NaN = False"
| "num_lt (Fin x) (Fin y) = (x < y)"
| "num_lt NInf b = (b \<noteq> NInf)"
| "num_lt a PInf = (a \<noteq> PInf)"
| "num_lt _ _ = False"

fun num_le :: "number \<Rightarrow> number \<Rightarrow> bool" where
  "num_le NaN _ = False"
| "num_le _ NaN = False"
| "num_le (Fin x) (Fin y) = (x \<le> y)"
| "num_le NInf _ = True"
| "num_le _ PInf = True"
| "num_le _ _ = False"

text \<open>Strict equality \<^verbatim>\<open>===\<close> on numbers: NaN differs from itself.\<close>

definition num_eq :: "number \<Rightarrow> number \<Rightarrow> bool" where
  "num_eq a b = (a \<noteq> NaN \<and> a = b)"

definition isNaN :: "number \<Rightarrow> bool" where
  "isNaN a = (a = NaN)"

text \<open>Truthiness of a number: \<^verbatim>\<open>0\<close> and NaN are falsy.\<close>

definition truthy :: "number \<Rightarrow> bool" where
  "truthy a = (a \<noteq> NaN \<and> a \<noteq> Fin 0)"

section \<open>Strings and numbers\<close>

text \<open>
  \<^verbatim>\<open>parseFloat\<close> skips leading white space, reads the longest prefix that is a
  decimal literal (an optional sign, then \<^verbatim>\<open>Infinity\<close> or digits with an optional
  fraction and an optional exponent) and ignores whatever follows; with no such prefix the
  result is NaN. The value is the literal's exact value, rounded. Strings are byte strings
  here, so the white space recognised is the ASCII part of the language's list.
\<close>

definition is_ws :: "char \<Rightarrow> bool" where
  "is_ws c = (c \<in> set [CHR '' '', CHR 0x09, CHR 0x0A, CHR 0x0B, CHR 0x0C, CHR 0x0D])"

definition is_digit :: "char \<Rightarrow> bool" where
  "is_digit c = (c \<in> set ''0123456789'')"

definition digit_val :: "char \<Rightarrow> nat" where
  "digit_val c = of_char c - 48"

definition dec :: "string \<Rightarrow> nat" where
  "dec ds = foldl (\<lambda>n c. 10 * n + digit_val c) 0 ds"

text \<open>Splitting an optional sign off: \<open>True\<close> for a minus.\<close>

fun split_sign :: "string \<Rightarrow> bool \<times> string" where
  "split_sign [] = (False, [])"
| "split_sign (c # r) =
     (if c = CHR ''-'' then (True, r) else if c = CHR ''+'' then (False, r) else (False, c # r))"

text \<open>The exponent part: \<open>e\<close> or \<open>E\<close>, an optional sign and at least one digit.\<close>

fun exponent_part :: "string \<Rightarrow> int" where
  "exponent_part [] = 0"
| "exponent_part (c # r) =
     (if c = CHR ''e'' \<or> c = CHR ''E'' then
        (let (neg, d) = split_sign r; ds = takeWhile is_digit d
         in if ds = [] then 0 else if neg then - int (dec ds) else int (dec ds))
      else 0)"

definition unsigned_decimal :: "string \<Rightarrow> rat option" where
  "unsigned_decimal u =
     (let ip = takeWhile is_digit u;
          r1 = dropWhile is_digit u;
          (fp, r2) = (case r1 of
                        [] \<Rightarrow> ([], [])
                      | c # r \<Rightarrow> if c = CHR ''.'' then (takeWhile is_digit r, dropWhile is_digit r)
                                 else ([], r1))
      in if ip = [] \<and> fp = [] then None
         else Some ((of_nat (dec ip) + of_nat (dec fp) / 10 ^ length fp)
                    * 10 powi exponent_part r2))"

definition parseFloat :: "string \<Rightarrow> number" where
  "parseFloat s =
     (let (neg, u) = split_sign (dropWhile is_ws s)
      in if prefix ''Infinity'' u then (if neg then NInf else PInf)
         else case unsigned_decimal u of
                None \<Rightarrow> NaN
              | Some v \<Rightarrow> fl (if neg then - v else v))"

text \<open>
  \<^verbatim>\<open>toString\<close> of an integral number, as \<^verbatim>\<open>Date.now().toString()\<close> needs it:
  the decimal digits, after a minus sign for a negative value. (A clock reading is an
  integer of at most 16 digits, far from the range where the language switches to
  exponent notation.)
\<close>

definition digit_char :: "nat \<Rightarrow> char" where
  "digit_char d = char_of (48 + d)"

function nat_toString :: "nat \<Rightarrow> string" where
  "nat_toString n =
     (if n < 10 then [digit_char n] else nat_toString (n div 10) @ [digit_char (n mod 10)])"
  by pat_completeness auto
termination
  by (relation "measure id") auto

declare nat_toString.simps [simp del]

definition toString :: "int \<Rightarrow> string" where
  "toString i = (if i < 0 then CHR ''-'' # nat_toString (nat (- i)) else nat_toString (nat i))"

text \<open>\<^verbatim>\<open>s.includes(t)\<close>: \<open>t\<close> occurs in \<open>s\<close> as a contiguous piece.\<close>

fun includes_str :: "string \<Rightarrow> string \<Rightarrow> bool" where
  "includes_str [] t = (t = [])"
| "includes_str (c # s) t = (prefix t (c # s) \<or> includes_str s t)"

text \<open>\<^verbatim>\<open>toLowerCase\<close> on ASCII letters.\<close>

definition lower_char :: "char \<Rightarrow> char" where
  "lower_char c =
     (if 65 \<le> (of_char c :: nat) \<and> (of_char c :: nat) \<le> 90 then char_of (of_char c + 32 :: nat)
      else c)"

definition toLowerCase :: "string \<Rightarrow> string" where
  "toLowerCase s = map lower_char s"

section \<open>The data model\<close>

text \<open>
  The interfaces of \<^verbatim>\<open>TreasurySimulator.tsx\<close> as records. A field \<^verbatim>\<open>f\<close> of
  \<^verbatim>\<open>Account\<close>, \<^verbatim>\<open>Transaction\<close>, \<^verbatim>\<open>TransferForm\<close> or \<^verbatim>\<open>Filters\<close> is
  \<open>acc_f\<close>, \<open>tx_f\<close>, \<open>form_f\<close> or \<open>flt_f\<close>, since several interfaces share
  field names. A currency is one of three string constants in the source;
  \<open>currency_str\<close> gives the string.
\<close>

datatype Currency = KES | USD | NGN

fun currency_str :: "Currency \<Rightarrow> string" where
  "currency_str KES = ''KES''"
| "currency_str USD = ''USD''"
| "currency_str NGN = ''NGN''"

record Account =
  acc_id :: string
  acc_name :: string
  acc_currency :: Currency
  acc_balance :: number

datatype Status = Completed | Scheduled

fun status_str :: "Status \<Rightarrow> string" where
  "status_str Completed = ''Completed''"
| "status_str Scheduled = ''Scheduled''"

record Transaction =
  tx_id :: string
  tx_timestamp :: string
  tx_fromAccount :: string
  tx_toAccount :: string
  tx_fromCurrency :: Currency
  tx_toCurrency :: Currency
  tx_amount :: number
  tx_convertedAmount :: number
  tx_fxRate :: number
  tx_note :: string
  tx_scheduledDate :: "string option"
  tx_status :: Status

record TransferForm =
  form_fromAccount :: string
  form_toAccount :: string
  form_amount :: string
  form_note :: string
  form_scheduledDate :: string

record Filters =
  flt_account :: string
  flt_currency :: string
  flt_dateFrom :: string
  flt_dateTo :: string

text \<open>The state of the component: one field for each \<^verbatim>\<open>useState\<close> cell.\<close>

record state =
  accounts :: "Account list"
  transactions :: "Transaction list"
  transferForm :: TransferForm
  filters :: Filters
  showFilters :: bool
  error :: string
  success :: string

text \<open>
  A number literal of the source denotes the binary64 value nearest to its decimal value.
\<close>

definition FX_RATES :: "(string \<times> number) list" where
  "FX_RATES =
     [(''KES-USD'', fl (67 / 10000)),
      (''USD-KES'', fl (14925 / 100)),
      (''KES-NGN'', fl (27 / 100)),
      (''NGN-KES'', fl (370 / 100)),
      (''USD-NGN'', fl 1580),
      (''NGN-USD'', fl (63 / 100000))]"

definition initialAccounts :: "Account list" where
  "initialAccounts =
     [\<lparr>acc_id = ''mpesa_kes_1'', acc_name = ''Mpesa_KES_1'', acc_currency = KES,
        acc_balance = Fin 2500000\<rparr>,
      \<lparr>acc_id = ''mpesa_kes_2'', acc_name = ''Mpesa_KES_2'', acc_currency = KES,
        acc_balance = Fin 1800000\<rparr>,
      \<lparr>acc_id = ''bank_kes_1'', acc_name = ''Bank_KES_1'', acc_currency = KES,
        acc_balance = Fin 5200000\<rparr>,
      \<lparr>acc_id = ''bank_usd_1'', acc_name = ''Bank_USD_1'', acc_currency = USD,
        acc_balance = Fin 45000\<rparr>,
      \<lparr>acc_id = ''bank_usd_2'', acc_name = ''Bank_USD_2'', acc_currency = USD,
        acc_balance = Fin 78000\<rparr>,
      \<lparr>acc_id = ''bank_usd_3'', acc_name = ''Bank_USD_3'', acc_currency = USD,
        acc_balance = Fin 32000\<rparr>,
      \<lparr>acc_id = ''flutterwave_ngn_1'', acc_name = ''Flutterwave_NGN_1'', acc_currency = NGN,
        acc_balance = Fin 15000000\<rparr>,
      \<lparr>acc_id = ''flutterwave_ngn_2'', acc_name = ''Flutterwave_NGN_2'', acc_currency = NGN,
        acc_balance = Fin 8500000\<rparr>,
      \<lparr>acc_id = ''paystack_ngn_1'', acc_name = ''Paystack_NGN_1'', acc_currency = NGN,
        acc_balance = Fin 12000000\<rparr>,
      \<lparr>acc_id = ''wise_usd_1'', acc_name = ''Wise_USD_1'', acc_currency = USD,
        acc_balance = Fin 95000\<rparr>]"

definition emptyForm :: TransferForm where
  "emptyForm =
     \<lparr>form_fromAccount = [], form_toAccount = [], form_amount = [], form_note = [],
      form_scheduledDate = []\<rparr>"

definition emptyFilters :: Filters where
  "emptyFilters = \<lparr>flt_account = [], flt_currency = [], flt_dateFrom = [], flt_dateTo = []\<rparr>"

definition initialState :: state where
  "initialState =
     \<lparr>accounts = initialAccounts, transactions = [], transferForm = emptyForm,
      filters = emptyFilters, showFilters = False, error = [], success = []\<rparr>"

section \<open>The transfer\<close>

text \<open>
  \<^verbatim>\<open>calculateFXConversion\<close>; \<open>None\<close> is the source's \<^verbatim>\<open>null\<close>. A key that the
  table lacks reads as \<^verbatim>\<open>undefined\<close>, which \<^verbatim>\<open>!rate\<close> rejects like a rate that
  is \<^verbatim>\<open>0\<close> or NaN.
\<close>

definition calculateFXConversion :: "number \<Rightarrow> Currency \<Rightarrow> Currency \<Rightarrow> number option" where
  "calculateFXConversion amount fromCurrency toCurrency =
     (if fromCurrency = toCurrency then Some amount
      else
        let rateKey = currency_str fromCurrency @ ''-'' @ currency_str toCurrency
        in case map_of FX_RATES rateKey of
             None \<Rightarrow> None
           | Some rate \<Rightarrow> if \<not> truthy rate then None else Some (num_mul amount rate))"

text \<open>The six messages of \<^verbatim>\<open>handleTransfer\<close>, under the names the specification uses.\<close>

datatype ValidationError =
  MissingField | SameAccount | InvalidAmount | UnknownAccount | InsufficientBalance
  | UnsupportedCurrencyPair

fun message :: "ValidationError \<Rightarrow> string" where
  "message MissingField = ''Please fill in all required fields''"
| "message SameAccount = ''Source and destination accounts must be different''"
| "message InvalidAmount = ''Please enter a valid amount''"
| "message UnknownAccount = ''Invalid account selection''"
| "message InsufficientBalance = ''Insufficient balance in source account''"
| "message UnsupportedCurrencyPair = ''Currency conversion not supported for this pair''"

text \<open>
  The part of \<^verbatim>\<open>handleTransfer\<close> after the last early return (source lines 160 to 200):
  the new account list, the new transaction in front of the log, the form reset and the
  success message. \<open>now\<close> is the reading of \<^verbatim>\<open>Date.now()\<close> and \<open>stamp\<close> the string
  \<^verbatim>\<open>new Date().toISOString()\<close>, both inputs from the environment.
\<close>

definition applyTransfer ::
  "int \<Rightarrow> string \<Rightarrow> state \<Rightarrow> Account \<Rightarrow> Account \<Rightarrow> number \<Rightarrow> number \<Rightarrow> number \<Rightarrow> state" where
  "applyTransfer now stamp st fromAccount toAccount amount convertedAmount fxRate =
     (let form = transferForm st;
          updatedAccounts =
            map (\<lambda>acc.
                   if acc_id acc = form_fromAccount form
                   then acc\<lparr>acc_balance := num_sub (acc_balance acc) amount\<rparr>
                   else if acc_id acc = form_toAccount form
                   then acc\<lparr>acc_balance := num_add (acc_balance acc) convertedAmount\<rparr>
                   else acc)
                (accounts st);
          newTransaction =
            \<lparr>tx_id = toString now,
             tx_timestamp = stamp,
             tx_fromAccount = acc_name fromAccount,
             tx_toAccount = acc_name toAccount,
             tx_fromCurrency = acc_currency fromAccount,
             tx_toCurrency = acc_currency toAccount,
             tx_amount = amount,
             tx_convertedAmount = convertedAmount,
             tx_fxRate = fxRate,
             tx_note = form_note form,
             tx_scheduledDate =
               (if form_scheduledDate form = [] then None else Some (form_scheduledDate form)),
             tx_status = (if form_scheduledDate form = [] then Completed else Scheduled)\<rparr>
      in st\<lparr>accounts := updatedAccounts,
             transactions := newTransaction # transactions st,
             transferForm := emptyForm,
             error := [],
             success :=
               ''Transfer '' @ toLowerCase (status_str (tx_status newTransaction))
               @ '' successfully!''\<rparr>)"

text \<open>
  \<^verbatim>\<open>handleTransfer\<close>: both messages are cleared first; each early return of the source
  is a branch that sets the error message and changes nothing else.
\<close>

definition fail :: "state \<Rightarrow> ValidationError \<Rightarrow> state" where
  "fail st e = st\<lparr>error := message e, success := []\<rparr>"

definition handleTransfer :: "int \<Rightarrow> string \<Rightarrow> state \<Rightarrow> state" where
  "handleTransfer now stamp st =
     (let form = transferForm st in
      if form_fromAccount form = [] \<or> form_toAccount form = [] \<or> form_amount form = []
      then fail st MissingField
      else if form_fromAccount form = form_toAccount form
      then fail st SameAccount
      else
        let amount = parseFloat (form_amount form) in
        if isNaN amount \<or> num_le amount (Fin 0)
        then fail st InvalidAmount
        else
          case (find (\<lambda>acc. acc_id acc = form_fromAccount form) (accounts st),
                find (\<lambda>acc. acc_id acc = form_toAccount form) (accounts st)) of
            (Some fromAccount, Some toAccount) \<Rightarrow>
              if num_lt (acc_balance fromAccount) amount
              then fail st InsufficientBalance
              else if acc_currency fromAccount \<noteq> acc_currency toAccount
              then
                (case calculateFXConversion amount (acc_currency fromAccount)
                        (acc_currency toAccount) of
                   None \<Rightarrow> fail st UnsupportedCurrencyPair
                 | Some converted \<Rightarrow>
                     if \<not> truthy converted then fail st UnsupportedCurrencyPair
                     else applyTransfer now stamp st fromAccount toAccount amount converted
                            (num_div converted amount))
              else applyTransfer now stamp st fromAccount toAccount amount amount (Fin 1)
          | _ \<Rightarrow> fail st UnknownAccount)"

section \<open>Filtering and totals\<close>

text \<open>
  \<^verbatim>\<open>filteredTransactions\<close>. Comparing two \<^verbatim>\<open>Date\<close> objects compares their time values,
  which are numbers (NaN for an invalid date). \<open>Date\<close> stands for the constructor
  \<^verbatim>\<open>new Date(string)\<close> followed by the reading of the time value; the language leaves
  the time zone of a string without an offset to the host, so it is a parameter.
\<close>

definition matches :: "(string \<Rightarrow> number) \<Rightarrow> Filters \<Rightarrow> Transaction \<Rightarrow> bool" where
  "matches Date flt tx =
     (let m0 = True;
          m1 = (if flt_account flt \<noteq> []
                then m0 \<and> (includes_str (tx_fromAccount tx) (flt_account flt)
                          \<or> includes_str (tx_toAccount tx) (flt_account flt))
                else m0);
          m2 = (if flt_currency flt \<noteq> []
                then m1 \<and> (currency_str (tx_fromCurrency tx) = flt_currency flt
                          \<or> currency_str (tx_toCurrency tx) = flt_currency flt)
                else m1);
          m3 = (if flt_dateFrom flt \<noteq> []
                then m2 \<and> num_le (Date (flt_dateFrom flt)) (Date (tx_timestamp tx))
                else m2);
          m4 = (if flt_dateTo flt \<noteq> []
                then m3 \<and> num_le (Date (tx_timestamp tx)) (Date (flt_dateTo flt @ ''T23:59:59''))
                else m3)
      in m4)"

definition filteredTransactions :: "(string \<Rightarrow> number) \<Rightarrow> state \<Rightarrow> Transaction list" where
  "filteredTransactions Date st = filter (matches Date (filters st)) (transactions st)"

text \<open>
  \<^verbatim>\<open>getTotalByCurrency\<close>: the loop over the accounts, with the totals object as a map.
  \<^verbatim>\<open>totals[c] || 0\<close> is \<open>0\<close> when the entry is missing and also when it is falsy.
\<close>

definition add_total :: "(Currency \<rightharpoonup> number) \<Rightarrow> Account \<Rightarrow> (Currency \<rightharpoonup> number)" where
  "add_total totals acc =
     totals(acc_currency acc \<mapsto>
       num_add (case totals (acc_currency acc) of
                  None \<Rightarrow> Fin 0
                | Some t \<Rightarrow> if truthy t then t else Fin 0)
               (acc_balance acc))"

definition getTotalByCurrency :: "state \<Rightarrow> (Currency \<rightharpoonup> number)" where
  "getTotalByCurrency st = foldl add_total Map.empty (accounts st)"

section \<open>The handlers as a state machine\<close>

datatype FormField = FromAccount | ToAccount | Amount | Note | ScheduledDate

fun handleFormChange :: "FormField \<Rightarrow> string \<Rightarrow> state \<Rightarrow> state" where
  "handleFormChange FromAccount v st =
     st\<lparr>transferForm := (transferForm st)\<lparr>form_fromAccount := v\<rparr>\<rparr>"
| "handleFormChange ToAccount v st =
     st\<lparr>transferForm := (transferForm st)\<lparr>form_toAccount := v\<rparr>\<rparr>"
| "handleFormChange Amount v st =
     st\<lparr>transferForm := (transferForm st)\<lparr>form_amount := v\<rparr>\<rparr>"
| "handleFormChange Note v st =
     st\<lparr>transferForm := (transferForm st)\<lparr>form_note := v\<rparr>\<rparr>"
| "handleFormChange ScheduledDate v st =
     st\<lparr>transferForm := (transferForm st)\<lparr>form_scheduledDate := v\<rparr>\<rparr>"

datatype FilterField = FAccount | FCurrency | FDateFrom | FDateTo

fun handleFilterChange :: "FilterField \<Rightarrow> string \<Rightarrow> state \<Rightarrow> state" where
  "handleFilterChange FAccount v st = st\<lparr>filters := (filters st)\<lparr>flt_account := v\<rparr>\<rparr>"
| "handleFilterChange FCurrency v st = st\<lparr>filters := (filters st)\<lparr>flt_currency := v\<rparr>\<rparr>"
| "handleFilterChange FDateFrom v st = st\<lparr>filters := (filters st)\<lparr>flt_dateFrom := v\<rparr>\<rparr>"
| "handleFilterChange FDateTo v st = st\<lparr>filters := (filters st)\<lparr>flt_dateTo := v\<rparr>\<rparr>"

text \<open>
  What the user can do: edit a form field, edit a filter field, show or hide the filters,
  press the transfer button (with the clock readings of that moment).
\<close>

datatype event =
  FormChange FormField string
  | FilterChange FilterField string
  | ToggleFilters
  | Transfer int string

fun step :: "state \<Rightarrow> event \<Rightarrow> state" where
  "step st (FormChange f v) = handleFormChange f v st"
| "step st (FilterChange f v) = handleFilterChange f v st"
| "step st ToggleFilters = st\<lparr>showFilters := \<not> showFilters st\<rparr>"
| "step st (Transfer now stamp) = handleTransfer now stamp st"

definition run :: "state \<Rightarrow> event list \<Rightarrow> state" where
  "run st evs = foldl step st evs"

text \<open>A balance that is not negative; NaN, which compares with nothing, counts as such.\<close>

definition not_negative :: "number \<Rightarrow> bool" where
  "not_negative b = (\<not> num_lt b (Fin 0))"

text \<open>
  The invariant of the ledger: the account ids are pairwise distinct and no balance is
  negative.
\<close>

definition ledger_ok :: "state \<Rightarrow> bool" where
  "ledger_ok st =
     (distinct (map acc_id (accounts st))
      \<and> (\<forall>acc \<in> set (accounts st). not_negative (acc_balance acc)))"

section \<open>The specification's validation sequence\<close>

text \<open>
  The six checks as the specification words them, in its order, for comparison with
  \<open>handleTransfer\<close>: fields present; source and destination differ; the amount parses as
  a number and is strictly positive; both ids resolve; the source balance is at least the
  amount; when the currencies differ, the rate table has an entry for the ordered pair.
\<close>

definition rate_exists :: "Currency \<Rightarrow> Currency \<Rightarrow> bool" where
  "rate_exists c d = (map_of FX_RATES (currency_str c @ ''-'' @ currency_str d) \<noteq> None)"

definition spec_validate :: "state \<Rightarrow> ValidationError option" where
  "spec_validate st =
     (let form = transferForm st;
          amount = parseFloat (form_amount form)
      in if form_fromAccount form = [] \<or> form_toAccount form = [] \<or> form_amount form = []
         then Some MissingField
         else if form_fromAccount form = form_toAccount form then Some SameAccount
         else if isNaN amount \<or> \<not> num_lt (Fin 0) amount then Some InvalidAmount
         else
           case (find (\<lambda>acc. acc_id acc = form_fromAccount form) (accounts st),
                 find (\<lambda>acc. acc_id acc = form_toAccount form) (accounts st)) of
             (Some src, Some dst) \<Rightarrow>
               if \<not> num_le amount (acc_balance src) then Some InsufficientBalance
               else if acc_currency src \<noteq> acc_currency dst
                       \<and> \<not> rate_exists (acc_currency src) (acc_currency dst)
               then Some UnsupportedCurrencyPair
               else None
           | _ \<Rightarrow> Some UnknownAccount)"

section \<open>Example inputs\<close>

definition fillForm :: "string \<Rightarrow> string \<Rightarrow> string \<Rightarrow> TransferForm" where
  "fillForm src dst amt =
     \<lparr>form_fromAccount = src, form_toAccount = dst, form_amount = amt, form_note = [],
      form_scheduledDate = []\<rparr>"

text \<open>Example 1 of the specification: 100,000 from Mpesa_KES_1 to Bank_USD_1.\<close>

definition example1 :: state where
  "example1 = initialState\<lparr>transferForm := fillForm ''mpesa_kes_1'' ''bank_usd_1'' ''100000''\<rparr>"

text \<open>
  Two requests whose amount is a positive number so small that the converted amount rounds
  to zero, and a scheduled request.
\<close>

definition tinyRequest1 :: state where
  "tinyRequest1 = initialState\<lparr>transferForm := fillForm ''mpesa_kes_1'' ''bank_usd_1'' ''5e-324''\<rparr>"

definition tinyRequest2 :: state where
  "tinyRequest2 =
     initialState\<lparr>transferForm := fillForm ''paystack_ngn_1'' ''wise_usd_1'' ''3e-321''\<rparr>"

definition scheduledRequest :: state where
  "scheduledRequest =
     initialState\<lparr>transferForm :=
       \<lparr>form_fromAccount = ''bank_usd_2'', form_toAccount = ''bank_kes_1'',
        form_amount = ''1000'', form_note = ''rent'', form_scheduledDate = ''2026-12-24''\<rparr>\<rparr>"

text \<open>
  A request whose amount has a numeric prefix followed by letters, and one whose amount is
  negative.
\<close>

definition suffixRequest :: state where
  "suffixRequest = initialState\<lparr>transferForm := fillForm ''mpesa_kes_1'' ''mpesa_kes_2'' ''100abc''\<rparr>"

definition negativeRequest :: state where
  "negativeRequest = initialState\<lparr>transferForm := fillForm ''mpesa_kes_1'' ''mpesa_kes_2'' ''-5''\<rparr>"

text \<open>
  Example 3 of the specification: 10,000,000 KES asked from an account that holds 2,500,000.
  And Example 1 as the user enters it, field by field.
\<close>

definition overdraftRequest :: state where
  "overdraftRequest =
     initialState\<lparr>transferForm := fillForm ''mpesa_kes_1'' ''mpesa_kes_2'' ''10000000''\<rparr>"

definition example1_events :: "event list" where
  "example1_events =
     [FormChange FromAccount ''mpesa_kes_1'', FormChange ToAccount ''bank_usd_1'',
      FormChange Amount ''100000'', Transfer 1730000000000 ''2024-10-27T03:33:20.000Z'']"

section \<open>Time values of date strings\<close>

text \<open>
  \<^verbatim>\<open>new Date(s)\<close> followed by the reading of the time value (milliseconds since the
  start of 1970 in UTC), for the three forms of string that the component builds. A date
  alone, \<^verbatim>\<open>YYYY-MM-DD\<close>, as a date input delivers it, is the start of that day in UTC.
  A date and a time without an offset, \<^verbatim>\<open>YYYY-MM-DDTHH:mm:ss\<close>, is local time: the
  time value is the local one minus the offset of the host's zone at that local time,
  which is a parameter (\<open>offset\<close>, in milliseconds, positive east of Greenwich). A string
  as \<^verbatim>\<open>toISOString\<close> writes it, \<^verbatim>\<open>YYYY-MM-DDTHH:mm:ss.sssZ\<close>, is in UTC. Any other
  string, and a month or a day out of range, is an invalid date here, with the time value
  NaN (the language leaves other forms to the implementation). All time values of
  four-digit years are integers below \<open>2 ^ 53\<close>, so no rounding occurs.
\<close>

text \<open>The number of days from 1970-01-01 to a date of the Gregorian calendar.\<close>

definition days_from_civil :: "int \<Rightarrow> int \<Rightarrow> int \<Rightarrow> int" where
  "days_from_civil y m d =
     (let y' = (if m \<le> 2 then y - 1 else y);
          era = y' div 400;
          yoe = y' - era * 400;
          doy = (153 * (if 2 < m then m - 3 else m + 9) + 2) div 5 + d - 1;
          doe = yoe * 365 + yoe div 4 - yoe div 100 + doy
      in era * 146097 + doe - 719468)"

definition days_in_month :: "int \<Rightarrow> int \<Rightarrow> int" where
  "days_in_month y m =
     (if m = 2 then (if y mod 4 = 0 \<and> (y mod 100 \<noteq> 0 \<or> y mod 400 = 0) then 29 else 28)
      else if m = 4 \<or> m = 6 \<or> m = 9 \<or> m = 11 then 30 else 31)"

definition number_of :: "string \<Rightarrow> int option" where
  "number_of s = (if s \<noteq> [] \<and> list_all is_digit s then Some (int (dec s)) else None)"

text \<open>The day number of a string \<^verbatim>\<open>YYYY-MM-DD\<close>.\<close>

definition parse_day :: "string \<Rightarrow> int option" where
  "parse_day s =
     (if length s = 10 \<and> s ! 4 = CHR ''-'' \<and> s ! 7 = CHR ''-'' then
        (case (number_of (take 4 s), number_of (take 2 (drop 5 s)), number_of (drop 8 s)) of
           (Some y, Some m, Some d) \<Rightarrow>
             if 1 \<le> m \<and> m \<le> 12 \<and> 1 \<le> d \<and> d \<le> days_in_month y m
             then Some (days_from_civil y m d) else None
         | _ \<Rightarrow> None)
      else None)"

text \<open>The milliseconds into the day of a string \<^verbatim>\<open>HH:mm:ss\<close>.\<close>

definition parse_time :: "string \<Rightarrow> int option" where
  "parse_time s =
     (if length s = 8 \<and> s ! 2 = CHR '':'' \<and> s ! 5 = CHR '':'' then
        (case (number_of (take 2 s), number_of (take 2 (drop 3 s)), number_of (drop 6 s)) of
           (Some h, Some mi, Some sec) \<Rightarrow>
             if h \<le> 23 \<and> mi \<le> 59 \<and> sec \<le> 59
             then Some ((h * 3600 + mi * 60 + sec) * 1000) else None
         | _ \<Rightarrow> None)
      else None)"

definition hostDate :: "(int \<Rightarrow> int) \<Rightarrow> string \<Rightarrow> number" where
  "hostDate offset s =
     (if length s = 10 then
        (case parse_day s of Some n \<Rightarrow> Fin (of_int (n * 86400000)) | None \<Rightarrow> NaN)
      else if length s = 19 \<and> s ! 10 = CHR ''T'' then
        (case (parse_day (take 10 s), parse_time (drop 11 s)) of
           (Some n, Some t) \<Rightarrow>
             (let local = n * 86400000 + t in Fin (of_int (local - offset local)))
         | _ \<Rightarrow> NaN)
      else if length s = 24 \<and> s ! 10 = CHR ''T'' \<and> s ! 19 = CHR ''.'' \<and> s ! 23 = CHR ''Z'' then
        (case (parse_day (take 10 s), parse_time (take 8 (drop 11 s)),
               number_of (take 3 (drop 20 s))) of
           (Some n, Some t, Some ms) \<Rightarrow> Fin (of_int (n * 86400000 + t + ms))
         | _ \<Rightarrow> NaN)
      else NaN)"

section \<open>The specification's filter\<close>

text \<open>
  The matching rule as the specification words it, for comparison with \<open>matches\<close>: every
  populated field must match. The account filter is a substring of the source or the
  destination account name; the currency filter equals the source or the destination
  currency; the timestamp is on or after the start of the date-from day; the timestamp is
  on or before 23:59:59 of the date-to day. The specification does not say in which time
  zone the day is taken: \<open>z\<close> is the offset of that zone, in milliseconds, so that the
  day with number \<open>n\<close> starts at the time value \<open>n * 86400000 - z\<close>. \<open>T\<close> is the time
  value of the transaction's timestamp.
\<close>

definition spec_matches :: "int \<Rightarrow> number \<Rightarrow> Filters \<Rightarrow> Transaction \<Rightarrow> bool" where
  "spec_matches z T flt tx =
     ((flt_account flt = [] \<or> sublist (flt_account flt) (tx_fromAccount tx)
         \<or> sublist (flt_account flt) (tx_toAccount tx))
      \<and> (flt_currency flt = [] \<or> flt_currency flt = currency_str (tx_fromCurrency tx)
         \<or> flt_currency flt = currency_str (tx_toCurrency tx))
      \<and> (flt_dateFrom flt = []
         \<or> (case parse_day (flt_dateFrom flt) of
               None \<Rightarrow> False
             | Some n \<Rightarrow> num_le (Fin (of_int (n * 86400000 - z))) T))
      \<and> (flt_dateTo flt = []
         \<or> (case parse_day (flt_dateTo flt) of
               None \<Rightarrow> False
             | Some n \<Rightarrow> num_le T (Fin (of_int (n * 86400000 + 86399000 - z))))))"

text \<open>
  A host three hours east of Greenwich, all year (Nairobi), and a log with one transfer
  made there half an hour after midnight on 28 October 2024, that is at 21:30 on 27 October
  in UTC. The filters ask for one day.
\<close>

definition nairobi :: "int \<Rightarrow> int" where
  "nairobi t = 10800000"

definition lateTransfer :: Transaction where
  "lateTransfer =
     \<lparr>tx_id = ''1730064600000'', tx_timestamp = ''2024-10-27T21:30:00.000Z'',
      tx_fromAccount = ''Mpesa_KES_1'', tx_toAccount = ''Bank_USD_1'',
      tx_fromCurrency = KES, tx_toCurrency = USD, tx_amount = Fin 100000,
      tx_convertedAmount = Fin 670, tx_fxRate = fl (67 / 10000), tx_note = [],
      tx_scheduledDate = None, tx_status = Completed\<rparr>"

definition oneDay :: "string \<Rightarrow> state" where
  "oneDay day =
     initialState\<lparr>transactions := [lateTransfer],
       filters := \<lparr>flt_account = [], flt_currency = [], flt_dateFrom = day,
                   flt_dateTo = day\<rparr>\<rparr>"

text \<open>Reading one field of the filters.\<close>

fun filter_field :: "FilterField \<Rightarrow> Filters \<Rightarrow> string" where
  "filter_field FAccount flt = flt_account flt"
| "filter_field FCurrency flt = flt_currency flt"
| "filter_field FDateFrom flt = flt_dateFrom flt"
| "filter_field FDateTo flt = flt_dateTo flt"

text \<open>
  A log of two transactions for the examples, newest first, and the time values of the
  date strings that occur in them (milliseconds since 1970, in a host on UTC).
\<close>

definition exampleLog :: "Transaction list" where
  "exampleLog =
     [\<lparr>tx_id = ''1730000060000'', tx_timestamp = ''2024-10-27T03:34:20.000Z'',
       tx_fromAccount = ''Paystack_NGN_1'', tx_toAccount = ''Flutterwave_NGN_1'',
       tx_fromCurrency = NGN, tx_toCurrency = NGN, tx_amount = Fin 5000,
       tx_convertedAmount = Fin 5000, tx_fxRate = Fin 1, tx_note = [],
       tx_scheduledDate = None, tx_status = Completed\<rparr>,
      \<lparr>tx_id = ''1730000000000'', tx_timestamp = ''2024-10-27T03:33:20.000Z'',
       tx_fromAccount = ''Mpesa_KES_1'', tx_toAccount = ''Bank_USD_1'',
       tx_fromCurrency = KES, tx_toCurrency = USD, tx_amount = Fin 100000,
       tx_convertedAmount = Fin 670, tx_fxRate = fl (67 / 10000), tx_note = [],
       tx_scheduledDate = None, tx_status = Completed\<rparr>]"

definition exampleDate :: "string \<Rightarrow> number" where
  "exampleDate s =
     (if s = ''2024-10-27T03:34:20.000Z'' then Fin 1730000060000
      else if s = ''2024-10-27T03:33:20.000Z'' then Fin 1730000000000
      else if s = ''2024-10-27'' then Fin 1729987200000
      else if s = ''2024-10-27T23:59:59'' then Fin 1730073599000
      else NaN)"

definition exampleHistory :: state where
  "exampleHistory = initialState\<lparr>transactions := exampleLog\<rparr>"

section \<open>Clock readings\<close>

text \<open>The readings of \<^verbatim>\<open>Date.now()\<close> that the transfer attempts of a run see, in order.\<close>

fun clock_readings :: "event list \<Rightarrow> int list" where
  "clock_readings [] = []"
| "clock_readings (Transfer now stamp # evs) = now # clock_readings evs"
| "clock_readings (_ # evs) = clock_readings evs"

text \<open>
  Two transfers of 100 KES from Mpesa_KES_1 to Mpesa_KES_2, the form filled anew for the
  second one; the clock reads \<open>t1\<close> at the first and \<open>t2\<close> at the second.
\<close>

definition twoTransfers :: "int \<Rightarrow> int \<Rightarrow> event list" where
  "twoTransfers t1 t2 =
     [FormChange FromAccount ''mpesa_kes_1'', FormChange ToAccount ''mpesa_kes_2'',
      FormChange Amount ''100'', Transfer t1 [],
      FormChange FromAccount ''mpesa_kes_1'', FormChange ToAccount ''mpesa_kes_2'',
      FormChange Amount ''100'', Transfer t2 []]"

section \<open>A run with fractional balances\<close>

text \<open>
  One KES is moved from Mpesa_KES_1 to Bank_USD_1, which then holds 45,000.0067 USD
  (rounded); then the form is filled for a transfer of 0.01 USD from Bank_USD_1 to
  Wise_USD_1.
\<close>

definition fractionEvents :: "event list" where
  "fractionEvents =
     [FormChange FromAccount ''mpesa_kes_1'', FormChange ToAccount ''bank_usd_1'',
      FormChange Amount ''1'', Transfer 1730000000000 [],
      FormChange FromAccount ''bank_usd_1'', FormChange ToAccount ''wise_usd_1'',
      FormChange Amount ''0.01'']"

definition fractionState :: state where
  "fractionState = run initialState fractionEvents"

section \<open>Whole balances\<close>

text \<open>
  A whole number that is not negative, the value of a finite number, and the exact sum of
  the balances held in one currency.
\<close>

definition whole :: "number \<Rightarrow> bool" where
  "whole b = (case b of Fin x \<Rightarrow> 0 \<le> x \<and> x = of_int \<lfloor>x\<rfloor> | _ \<Rightarrow> False)"

definition value_of :: "number \<Rightarrow> rat" where
  "value_of b = (case b of Fin x \<Rightarrow> x | _ \<Rightarrow> 0)"

definition exact_total :: "Currency \<Rightarrow> Account list \<Rightarrow> rat" where
  "exact_total c accs =
     sum_list (map (\<lambda>acc. value_of (acc_balance acc)) (filter (\<lambda>acc. acc_currency acc = c) accs))"

text \<open>A transfer of 2,500 NGN between two NGN accounts.\<close>

definition wholeRequest :: state where
  "wholeRequest =
     initialState\<lparr>transferForm := fillForm ''flutterwave_ngn_1'' ''paystack_ngn_1'' ''2500''\<rparr>"

section \<open>A run that ends in an overflow\<close>

text \<open>
  The events of one transfer as the user makes it: the three fields are filled in and the
  button is pressed.
\<close>

definition transferEvents :: "string \<Rightarrow> string \<Rightarrow> string \<Rightarrow> event list" where
  "transferEvents src dst amt =
     [FormChange FromAccount src, FormChange ToAccount dst, FormChange Amount amt,
      Transfer 0 []]"

text \<open>
  Money sent round the three currencies comes back multiplied: 1 USD buys 1580 NGN, which
  buy 5846 KES, which buy 39 USD. Round trip \<open>n\<close> sends 1e\<open>n\<close> USD from Bank_USD_1 to
  Paystack_NGN_1, then 1e\<open>n+3\<close> NGN on to Bank_KES_1, then 3e\<open>n+3\<close> KES back to
  Bank_USD_1, which ends with more than ten times what it sent.
\<close>

definition roundTrip :: "nat \<Rightarrow> event list" where
  "roundTrip n =
     transferEvents ''bank_usd_1'' ''paystack_ngn_1'' (''1e'' @ nat_toString n)
     @ transferEvents ''paystack_ngn_1'' ''bank_kes_1'' (''1e'' @ nat_toString (n + 3))
     @ transferEvents ''bank_kes_1'' ''bank_usd_1'' (''3e'' @ nat_toString (n + 3))"

text \<open>
  After 305 round trips, 1e305 USD become more than 1.5e308 NGN, and 8e307 of these are
  worth more KES than the largest binary64 number: the balance of Bank_KES_1 is Infinity.
\<close>

definition overflowEvents :: "event list" where
  "overflowEvents =
     concat (map roundTrip [0..<305])
     @ transferEvents ''bank_usd_1'' ''paystack_ngn_1'' ''1e305''
     @ transferEvents ''paystack_ngn_1'' ''bank_kes_1'' ''8e307''"

text \<open>The balance of the account with a given id.\<close>

definition balance_of :: "state \<Rightarrow> string \<Rightarrow> number option" where
  "balance_of st i = map_option acc_balance (find (\<lambda>acc. acc_id acc = i) (accounts st))"

text \<open>A number that is at least a given rational: a finite number or Infinity.\<close>

definition at_least :: "rat \<Rightarrow> number \<Rightarrow> bool" where
  "at_least L b = num_le (Fin L) b"

text \<open>
  A ledger with the ids and currencies of the seed accounts, in their order, and with
  balances that are numbers not below zero.
\<close>

definition seed_shape :: "state \<Rightarrow> bool" where
  "seed_shape st =
     (map (\<lambda>acc. (acc_id acc, acc_currency acc)) (accounts st) =
        map (\<lambda>acc. (acc_id acc, acc_currency acc)) initialAccounts
      \<and> (\<forall>acc \<in> set (accounts st). at_least 0 (acc_balance acc)))"

text \<open>
  One more transfer, inside the currency: 5e308 KES, which parses to Infinity, from
  Bank_KES_1 to Mpesa_KES_1.
\<close>

definition nanEvents :: "event list" where
  "nanEvents = overflowEvents @ transferEvents ''bank_kes_1'' ''mpesa_kes_1'' ''5e308''"

text \<open>
  The invariant of the ledger while the amounts entered are finite: the account ids are
  pairwise distinct, every balance is a number that is at least zero, and the amount in the
  form does not parse to Infinity.
\<close>

definition ledger_nonneg :: "state \<Rightarrow> bool" where
  "ledger_nonneg st =
     (distinct (map acc_id (accounts st))
      \<and> (\<forall>acc \<in> set (accounts st). at_least 0 (acc_balance acc))
      \<and> parseFloat (form_amount (transferForm st)) \<noteq> PInf)"

section \<open>Facts about rounding\<close>

lemma bits_nonpos: "n \<le> 0 \<Longrightarrow> bits n = 0"
  by (simp add: bits.simps)

lemma bits_pos_unfold: "0 < n \<Longrightarrow> bits n = 1 + bits (n div 2)"
  by (subst bits.simps) simp

lemma bits_bounds:
  "0 < n \<Longrightarrow> 0 < bits n \<and> 2 ^ nat (bits n - 1) \<le> n \<and> n < 2 ^ nat (bits n)"
proof (induction n rule: bits.induct)
  case (1 n)
  show ?case
  proof (cases "n = 1")
    case True
    then show ?thesis by (simp add: bits_pos_unfold bits_nonpos)
  next
    case False
    with "1.prems" have h: "0 < n div 2" by simp
    have nz: "\<not> n \<le> 0" using "1.prems" by simp
    from "1.IH" [OF nz h] obtain b where b: "b = bits (n div 2)" "0 < b"
      "2 ^ nat (b - 1) \<le> n div 2" "n div 2 < 2 ^ nat b" by simp
    have e1: "bits n = 1 + b" using "1.prems" b by (simp add: bits_pos_unfold)
    have "nat b = Suc (nat (b - 1))" using b(2) by simp
    then have p: "(2::int) ^ nat b = 2 * 2 ^ nat (b - 1)" by simp
    have p2: "(2::int) ^ nat (1 + b) = 2 * 2 ^ nat b"
      using b(2) by (simp add: nat_add_distrib)
    have "2 * (n div 2) \<le> n" "n < 2 * (n div 2) + 2" by presburger+
    with b p p2 e1 show ?thesis by simp
  qed
qed

lemma bits_bounds_rat:
  assumes "0 < n"
  shows "(2::rat) powi (bits n - 1) \<le> of_int n" and "of_int n + 1 \<le> (2::rat) powi (bits n)"
proof -
  from bits_bounds [OF assms] have b: "0 < bits n" "2 ^ nat (bits n - 1) \<le> n"
    "n + 1 \<le> 2 ^ nat (bits n)" by simp_all
  have "(2::rat) powi (bits n - 1) = of_int (2 ^ nat (bits n - 1))"
    using b(1) by (simp add: power_int_def)
  also have "\<dots> \<le> of_int n" using b(2) by (simp only: of_int_le_iff)
  finally show "(2::rat) powi (bits n - 1) \<le> of_int n" .
  have "(of_int n + 1 :: rat) = of_int (n + 1)" by simp
  also have "\<dots> \<le> of_int (2 ^ nat (bits n))" using b(3) by (simp only: of_int_le_iff)
  also have "\<dots> = (2::rat) powi (bits n)" using b(1) by (simp add: power_int_def)
  finally show "of_int n + 1 \<le> (2::rat) powi (bits n)" .
qed

lemma ilog2_bounds:
  assumes "0 < x"
  shows "2 powi (ilog2 x) \<le> x" and "x < 2 powi (ilog2 x + 1)"
proof -
  have "2 powi (ilog2 x) \<le> x \<and> x < 2 powi (ilog2 x + 1)"
  proof (cases "1 \<le> x")
    case True
    then have n: "0 < \<lfloor>x\<rfloor>" by simp
    have e: "ilog2 x = bits \<lfloor>x\<rfloor> - 1" using True by (simp add: ilog2_def)
    have "2 powi (bits \<lfloor>x\<rfloor> - 1) \<le> (of_int \<lfloor>x\<rfloor> :: rat)" by (rule bits_bounds_rat(1) [OF n])
    also have "\<dots> \<le> x" by simp
    finally have l: "2 powi (ilog2 x) \<le> x" by (simp add: e)
    have "x < of_int \<lfloor>x\<rfloor> + 1" by linarith
    also have "\<dots> \<le> 2 powi (bits \<lfloor>x\<rfloor>)" by (rule bits_bounds_rat(2) [OF n])
    finally have "x < 2 powi (ilog2 x + 1)" by (simp add: e)
    with l show ?thesis by simp
  next
    case False
    define k where "k = \<lceil>1 / x\<rceil> - 1"
    have y: "1 < 1 / x" using assms False by simp
    then have k: "0 < k" unfolding k_def by linarith
    have e: "ilog2 x = - bits k" using False by (simp add: ilog2_def k_def)
    have k1: "of_int k < 1 / x" unfolding k_def by linarith
    have k2: "1 / x \<le> of_int k + 1" unfolding k_def by linarith
    have "2 powi (bits k - 1) \<le> (of_int k :: rat)" by (rule bits_bounds_rat(1) [OF k])
    with k1 have "2 powi (bits k - 1) < 1 / x" by simp
    then have "x < 1 / 2 powi (bits k - 1)"
      using assms by (simp add: field_simps)
    also have "\<dots> = 2 powi (- bits k + 1)"
      by (simp add: power_int_minus_divide [symmetric])
    finally have u: "x < 2 powi (ilog2 x + 1)" by (simp add: e)
    have "1 / x \<le> 2 powi (bits k)" using k2 bits_bounds_rat(2) [OF k] by simp
    then have "1 / 2 powi (bits k) \<le> x"
      using assms by (simp add: field_simps)
    then have "2 powi (ilog2 x) \<le> x" by (simp add: e power_int_minus_divide)
    with u show ?thesis by simp
  qed
  then show "2 powi (ilog2 x) \<le> x" and "x < 2 powi (ilog2 x + 1)" by simp_all
qed

lemma ilog2_unique:
  assumes "2 powi e \<le> x" and "x < 2 powi (e + 1)"
  shows "ilog2 x = e"
proof -
  have x: "0 < x" using assms(1) by (meson less_le_trans zero_less_numeral zero_less_power_int)
  note b = ilog2_bounds [OF x]
  have "\<not> ilog2 x < e"
  proof
    assume "ilog2 x < e"
    then have "(2::rat) powi (ilog2 x + 1) \<le> 2 powi e" by (intro power_int_increasing) simp_all
    with b(2) assms(1) show False by simp
  qed
  moreover have "\<not> e < ilog2 x"
  proof
    assume "e < ilog2 x"
    then have "(2::rat) powi (e + 1) \<le> 2 powi (ilog2 x)" by (intro power_int_increasing) simp_all
    with b(1) assms(2) show False by simp
  qed
  ultimately show ?thesis by simp
qed

lemma quantum_pos: "0 < quantum x"
  by (simp add: quantum_def)

lemma fl_alt:
  "x \<noteq> 0 \<Longrightarrow>
   fl x = (let y = of_int (round_even (\<bar>x\<bar> / quantum x)) * quantum x
           in if 2 powi 1024 \<le> y then (if 0 < x then PInf else NInf)
              else Fin (if 0 < x then y else - y))"
  by (simp add: fl_def quantum_def Let_def)

lemma round_even_err: "\<bar>of_int (round_even x) - x\<bar> \<le> 1 / 2"
proof -
  have "of_int \<lfloor>x\<rfloor> \<le> x" "x < of_int \<lfloor>x\<rfloor> + 1" by linarith+
  then show ?thesis by (auto simp: round_even_def Let_def)
qed

lemma round_even_nonneg: "0 \<le> x \<Longrightarrow> 0 \<le> round_even x"
  by (auto simp: round_even_def Let_def)

lemma round_even_of_int: "round_even (of_int k) = k"
  by (simp add: round_even_def)

lemma fl_not_NaN: "fl x \<noteq> NaN"
  by (cases "x = 0") (auto simp: fl_alt Let_def fl_def)

lemma fl_nonneg:
  assumes "0 \<le> x"
  shows "fl x = PInf \<or> (\<exists>y. fl x = Fin y \<and> 0 \<le> y)"
proof (cases "x = 0")
  case True
  then show ?thesis by (simp add: fl_def)
next
  case False
  with assms have x: "0 < x" by simp
  have "0 \<le> of_int (round_even (\<bar>x\<bar> / quantum x)) * quantum x"
    using quantum_pos [of x] x by (intro mult_nonneg_nonneg) (simp_all add: round_even_nonneg)
  with x False show ?thesis by (simp add: fl_alt Let_def)
qed

lemma quantum_normal:
  assumes "2 powi e \<le> \<bar>x\<bar>" and "\<bar>x\<bar> < 2 powi (e + 1)" and "- 1022 \<le> e"
  shows "quantum x = 2 powi (e - 52)"
  using ilog2_unique [OF assms(1,2)] assms(3) by (simp add: quantum_def)

lemma quantum_subnormal:
  assumes "x \<noteq> 0" and "\<bar>x\<bar> < 2 powi (- 1022)"
  shows "quantum x = 2 powi (- 1074)"
proof -
  have x: "0 < \<bar>x\<bar>" using assms(1) by simp
  have "\<not> - 1022 \<le> ilog2 \<bar>x\<bar>"
  proof
    assume "- 1022 \<le> ilog2 \<bar>x\<bar>"
    then have "(2::rat) powi (- 1022) \<le> 2 powi (ilog2 \<bar>x\<bar>)"
      by (intro power_int_increasing) simp_all
    with ilog2_bounds(1) [OF x] assms(2) show False by linarith
  qed
  then show ?thesis by (simp add: quantum_def max_def)
qed

lemma fl_Fin_general:
  assumes "x \<noteq> 0" and "quantum x = q" and "\<bar>x\<bar> + q / 2 < 2 powi 1024"
  shows "fl x = Fin (sgn x * (of_int (round_even (\<bar>x\<bar> / q)) * q))"
proof -
  let ?n = "round_even (\<bar>x\<bar> / q)"
  have q: "0 < q" using quantum_pos [of x] assms(2) by simp
  have "of_int ?n \<le> \<bar>x\<bar> / q + 1 / 2" using round_even_err [of "\<bar>x\<bar> / q"] by linarith
  then have "of_int ?n * q \<le> (\<bar>x\<bar> / q + 1 / 2) * q"
    using q by (intro mult_right_mono) simp_all
  also have "\<dots> = \<bar>x\<bar> + q / 2" using q by (simp add: field_simps)
  finally have "\<not> 2 powi 1024 \<le> of_int ?n * q" using assms(3) by linarith
  then show ?thesis using assms(1,2)
    by (cases "0 < x") (simp_all add: fl_alt Let_def sgn_if del: power_int_numeral)
qed

text \<open>Evaluating \<open>fl\<close> once the exponent is known.\<close>

lemma fl_eval:
  assumes "2 powi e \<le> \<bar>x\<bar>" and "\<bar>x\<bar> < 2 powi (e + 1)" and "- 1022 \<le> e" and "e \<le> 1022"
  shows "fl x = Fin (sgn x * (of_int (round_even (\<bar>x\<bar> / 2 powi (e - 52))) * 2 powi (e - 52)))"
proof (rule fl_Fin_general)
  have "0 < \<bar>x\<bar>" using assms(1) by (meson less_le_trans zero_less_numeral zero_less_power_int)
  then show "x \<noteq> 0" by simp
  show "quantum x = 2 powi (e - 52)" by (rule quantum_normal [OF assms(1,2,3)])
  have "(2::rat) powi (e - 52) \<le> 2 powi (e + 1)" by (intro power_int_increasing) simp_all
  moreover have "0 < (2::rat) powi (e - 52)" by simp
  ultimately have "\<bar>x\<bar> + 2 powi (e - 52) / 2 < 2 powi (e + 1) + 2 powi (e + 1)"
    using assms(2) by linarith
  also have "\<dots> = 2 powi (e + 2)" by (simp add: power_int_add)
  also have "\<dots> \<le> 2 powi 1024" using assms(4) by (intro power_int_increasing) simp_all
  finally show "\<bar>x\<bar> + 2 powi (e - 52) / 2 < 2 powi 1024" .
qed

lemma fl_eval_subnormal:
  assumes "x \<noteq> 0" and "\<bar>x\<bar> < 2 powi (- 1022)"
  shows "fl x = Fin (sgn x * (of_int (round_even (\<bar>x\<bar> / 2 powi (- 1074))) * 2 powi (- 1074)))"
proof (rule fl_Fin_general)
  show "x \<noteq> 0" by (rule assms(1))
  show "quantum x = 2 powi (- 1074)" by (rule quantum_subnormal [OF assms])
  have "(2::rat) powi (- 1074) \<le> 2 powi (- 1022)" by (intro power_int_increasing) simp_all
  moreover have "0 < (2::rat) powi (- 1074)" by (rule zero_less_power_int) simp
  ultimately have "\<bar>x\<bar> + 2 powi (- 1074) / 2 < 2 powi (- 1022) + 2 powi (- 1022)"
    using assms(2) by linarith
  also have "\<dots> \<le> 2 powi 1024 + 0"
  proof -
    have "(2::rat) powi (- 1022) + 2 powi (- 1022) = 2 powi (- 1021)"
      using power_int_add [of "2::rat" "- 1022" 1] by simp
    also have "\<dots> \<le> 2 powi 1024" by (intro power_int_increasing) simp_all
    finally show ?thesis by simp
  qed
  finally show "\<bar>x\<bar> + 2 powi (- 1074) / 2 < 2 powi 1024" by simp
qed

lemma fl_of_int:
  assumes "\<bar>k\<bar> \<le> 2 ^ 53"
  shows "fl (of_int k) = Fin (of_int k)"
proof (cases "k = 0")
  case True
  then show ?thesis by (simp add: fl_def)
next
  case False
  define a :: rat where "a = \<bar>of_int k\<bar>"
  have a: "0 < a" "a = of_int \<bar>k\<bar>" using False by (simp_all add: a_def)
  define e where "e = ilog2 a"
  have lo: "2 powi e \<le> a" and hi: "a < 2 powi (e + 1)"
    using ilog2_bounds [OF a(1)] by (simp_all add: e_def)
  have "(1::rat) \<le> a" using False a(2) by (simp add: a_def) 
  have e0: "0 \<le> e"
  proof (rule ccontr)
    assume "\<not> 0 \<le> e"
    then have "(2::rat) powi (e + 1) \<le> 2 powi 0" by (intro power_int_increasing) simp_all
    with hi \<open>1 \<le> a\<close> show False by simp
  qed
  have "a \<le> 2 ^ 53" using assms a(2) by (metis of_int_le_iff of_int_numeral of_int_power)
  have e53: "e \<le> 53"
  proof (rule ccontr)
    assume "\<not> e \<le> 53"
    then have "(2::rat) powi 54 \<le> 2 powi e" by (intro power_int_increasing) simp_all
    with lo \<open>a \<le> 2 ^ 53\<close> show False by simp
  qed
  have "\<exists>m::int. a / 2 powi (e - 52) = of_int m"
  proof (cases "e \<le> 52")
    case True
    have "a / 2 powi (e - 52) = a * 2 powi (52 - e)"
      using power_int_minus_divide [of "2::rat" "52 - e"] by simp
    also have "\<dots> = of_int (\<bar>k\<bar> * 2 ^ nat (52 - e))"
      using True by (simp add: a(2) power_int_def)
    finally show ?thesis by blast
  next
    case False
    with e53 have e: "e = 53" by simp
    with lo \<open>a \<le> 2 ^ 53\<close> have "a = 2 ^ 53" by simp
    then have "a / 2 powi (e - 52) = of_int (2 ^ 52)" by (simp add: e)
    then show ?thesis by blast
  qed
  then obtain m :: int where m: "a / 2 powi (e - 52) = of_int m" ..
  then have mq: "of_int m * 2 powi (e - 52) = a" by (simp add: field_simps)
  have "fl (of_int k) =
        Fin (sgn (of_int k) * (of_int (round_even (a / 2 powi (e - 52))) * 2 powi (e - 52)))"
    unfolding a_def
  proof (rule fl_eval)
    show "2 powi e \<le> \<bar>rat_of_int k\<bar>" using lo by (simp add: a_def)
    show "\<bar>rat_of_int k\<bar> < 2 powi (e + 1)" using hi by (simp add: a_def)
    show "- 1022 \<le> e" using e0 by simp
    show "e \<le> 1022" using e53 by simp
  qed
  also have "\<dots> = Fin (sgn (of_int k) * a)"
    by (simp only: m round_even_of_int mq)
  also have "sgn (of_int k) * a = (of_int k :: rat)"
    by (simp add: a_def sgn_if)
  finally show ?thesis .
qed

lemma round_even_frac:
  assumes "0 < q"
  shows "round_even (of_int p / of_int q) =
           (let n = p div q; r = 2 * (p mod q)
            in if r < q then n else if q < r then n + 1 else if even n then n else n + 1)"
proof -
  have fl: "\<lfloor>rat_of_int p / rat_of_int q\<rfloor> = p div q" by (rule floor_divide_of_int_eq)
  have "rat_of_int p = of_int (p div q * q + p mod q)" by simp
  also have "\<dots> = of_int (p div q) * of_int q + of_int (p mod q)" by (simp only: of_int_add of_int_mult)
  finally have d: "rat_of_int p / of_int q - of_int (p div q) = of_int (p mod q) / of_int q"
    using assms by (simp add: field_simps)
  have c1: "(rat_of_int (p mod q) / of_int q < 1 / 2) = (2 * (p mod q) < q)"
  proof -
    have "(rat_of_int (p mod q) / of_int q < 1 / 2) = (rat_of_int (2 * (p mod q)) < of_int q)"
      using assms by (simp add: field_simps)
    then show ?thesis by (simp only: of_int_less_iff)
  qed
  have c2: "(1 / 2 < rat_of_int (p mod q) / of_int q) = (q < 2 * (p mod q))"
  proof -
    have "(1 / 2 < rat_of_int (p mod q) / of_int q) = (rat_of_int q < of_int (2 * (p mod q)))"
      using assms by (simp add: field_simps)
    then show ?thesis by (simp only: of_int_less_iff)
  qed
  show ?thesis
    unfolding round_even_def Let_def fl d c1 c2 ..
qed

lemma round_even_numeral_frac:
  "round_even (numeral p / numeral q) =
     (let n = (numeral p :: int) div numeral q; r = 2 * ((numeral p :: int) mod numeral q)
      in if r < numeral q then n else if numeral q < r then n + 1
         else if even n then n else n + 1)"
  using round_even_frac [of "numeral q" "numeral p"] by simp

lemma round_even_numeral: "round_even (numeral p) = numeral p"
  using round_even_of_int [of "numeral p"] by simp

lemmas round_even_simps = round_even_numeral_frac round_even_numeral Let_def

lemma fl_numeral: "numeral n \<le> (2::int) ^ 53 \<Longrightarrow> fl (numeral n) = Fin (numeral n)"
  using fl_of_int [of "numeral n"] by simp

lemma fl_zero_one: "fl 0 = Fin 0" "fl 1 = Fin 1"
  using fl_of_int [of 0] fl_of_int [of 1] by simp_all

subsection \<open>Rounding error\<close>

lemma quantum_min: "2 powi (- 1074) \<le> quantum x"
  unfolding quantum_def by (intro power_int_increasing) simp_all

lemma quantum_relative:
  assumes "2 powi (- 1022) \<le> \<bar>x\<bar>"
  shows "quantum x \<le> \<bar>x\<bar> * 2 powi (- 52)"
proof -
  have pos: "0 < \<bar>x\<bar>" using assms by (meson less_le_trans zero_less_numeral zero_less_power_int)
  have "\<not> ilog2 \<bar>x\<bar> < - 1022"
  proof
    assume "ilog2 \<bar>x\<bar> < - 1022"
    then have "(2::rat) powi (ilog2 \<bar>x\<bar> + 1) \<le> 2 powi (- 1022)"
      by (intro power_int_increasing) simp_all
    with ilog2_bounds(2) [OF pos] assms show False by linarith
  qed
  then have "quantum x = 2 powi (ilog2 \<bar>x\<bar> + (- 52))"
    by (simp only: quantum_def max_def) simp
  also have "\<dots> = 2 powi (ilog2 \<bar>x\<bar>) * 2 powi (- 52)"
    by (rule power_int_add) simp
  also have "\<dots> \<le> \<bar>x\<bar> * 2 powi (- 52)"
    using ilog2_bounds(1) [OF pos] by (intro mult_right_mono) simp_all
  finally show ?thesis .
qed

lemma scaled_error:
  fixes q a n :: rat
  assumes "0 < q" and "\<bar>n - a / q\<bar> \<le> 1 / 2"
  shows "\<bar>n * q - a\<bar> \<le> q / 2"
proof -
  have "n * q - a = (n - a / q) * q" using assms(1) by (simp add: field_simps)
  then have "\<bar>n * q - a\<bar> = \<bar>n - a / q\<bar> * q"
    using assms(1) by (simp only: abs_mult abs_of_pos)
  also have "\<dots> \<le> 1 / 2 * q" using assms by (intro mult_right_mono) simp_all
  finally show ?thesis by simp
qed

text \<open>A finite result of \<open>fl\<close> is a multiple of the spacing, at most half a spacing away.\<close>

lemma fl_FinD:
  assumes "fl x = Fin y" and "x \<noteq> 0"
  shows "\<bar>y - x\<bar> \<le> quantum x / 2"
    and "\<exists>n::int. 0 \<le> n \<and> \<bar>y\<bar> = of_int n * quantum x"
    and "0 < x \<Longrightarrow> 0 \<le> y"
proof -
  let ?q = "quantum x"
  let ?n = "round_even (\<bar>x\<bar> / ?q)"
  have q: "0 < ?q" by (rule quantum_pos)
  have n: "0 \<le> ?n" using q by (intro round_even_nonneg) simp
  from assms have y: "y = (if 0 < x then of_int ?n * ?q else - (of_int ?n * ?q))"
    by (simp add: fl_alt Let_def split: if_splits)
  have "\<bar>of_int ?n - \<bar>x\<bar> / ?q\<bar> \<le> 1 / 2" by (rule round_even_err)
  with q have e: "\<bar>of_int ?n * ?q - \<bar>x\<bar>\<bar> \<le> ?q / 2" by (rule scaled_error)
  show "\<bar>y - x\<bar> \<le> ?q / 2"
  proof (cases "0 < x")
    case True
    with e y show ?thesis by simp
  next
    case False
    with assms(2) have "x < 0" by simp
    with e y show ?thesis by (simp add: abs_if split: if_splits)
  qed
  have "0 \<le> of_int ?n * ?q" using n q by simp
  then have "\<bar>y\<bar> = of_int ?n * ?q" unfolding y by (cases "0 < x") (simp_all only: if_True if_False abs_minus abs_of_nonneg)
  with n show "\<exists>n::int. 0 \<le> n \<and> \<bar>y\<bar> = of_int n * ?q" by blast
  show "0 \<le> y" if "0 < x" using that y n q by simp
qed

lemma fl_nonzero_min:
  assumes "fl x = Fin y" and "y \<noteq> 0"
  shows "2 powi (- 1074) \<le> \<bar>y\<bar>"
proof -
  have x: "x \<noteq> 0" using assms by (auto simp: fl_def)
  from fl_FinD(2) [OF assms(1) x] obtain n :: int where n: "0 \<le> n" "\<bar>y\<bar> = of_int n * quantum x"
    by blast
  with assms(2) have "1 \<le> n" by (cases "n = 0") simp_all
  then have "(1::rat) \<le> of_int n" by simp
  then have "1 * quantum x \<le> of_int n * quantum x"
    using quantum_pos [of x] by (intro mult_right_mono) simp_all
  with n(2) have "quantum x \<le> \<bar>y\<bar>" by simp
  with quantum_min [of x] show ?thesis by (rule order_trans)
qed

lemma fl_error:
  assumes "fl x = Fin y" and "0 < x"
  shows "\<bar>y - x\<bar> \<le> x * 2 powi (- 53) \<or> \<bar>y - x\<bar> \<le> 2 powi (- 1075)"
proof -
  have x: "x \<noteq> 0" using assms(2) by simp
  note e = fl_FinD(1) [OF assms(1) x]
  show ?thesis
  proof (cases "2 powi (- 1022) \<le> x")
    case True
    then have "quantum x \<le> x * 2 powi (- 52)" using quantum_relative [of x] assms(2) by simp
    moreover have "(2::rat) powi (- 53 + 1) = 2 powi (- 53) * 2 powi 1"
      by (rule power_int_add) simp
    then have "x * 2 powi (- 52) / 2 = x * 2 powi (- 53)"
      by (simp only: power_int_1_right) simp
    ultimately have "\<bar>y - x\<bar> \<le> x * 2 powi (- 53)" using e by linarith
    then show ?thesis ..
  next
    case False
    then have "quantum x = 2 powi (- 1074)" using quantum_subnormal [OF x] assms(2) by simp
    moreover have "(2::rat) powi (- 1075 + 1) = 2 powi (- 1075) * 2 powi 1"
      by (rule power_int_add) simp
    then have "(2::rat) powi (- 1074) / 2 = 2 powi (- 1075)"
      by (simp only: power_int_1_right) simp
    ultimately have "\<bar>y - x\<bar> \<le> 2 powi (- 1075)" using e by (simp only:)
    then show ?thesis ..
  qed
qed

lemma small_units:
  "(2::rat) powi (- 53) \<le> 1 / 1000" "(0::rat) < 2 powi (- 53)"
  "(2::rat) powi (- 1075) \<le> 1 / 1000" "(0::rat) < 2 powi (- 1075)"
  "(2::rat) powi (- 1074) = 2 * 2 powi (- 1075)"
proof -
  show "(2::rat) powi (- 53) \<le> 1 / 1000" by (simp add: power_int_minus field_simps)
  show "(0::rat) < 2 powi (- 53)" by (rule zero_less_power_int) simp
  have "(2::rat) powi (- 1075) \<le> 2 powi (- 53)" by (intro power_int_increasing) simp_all
  also note \<open>(2::rat) powi (- 53) \<le> 1 / 1000\<close>
  finally show "(2::rat) powi (- 1075) \<le> 1 / 1000" .
  show "(0::rat) < 2 powi (- 1075)" by (rule zero_less_power_int) simp
  have "(2::rat) powi (1 + (- 1075)) = 2 powi 1 * 2 powi (- 1075)"
    by (rule power_int_add) simp
  then show "(2::rat) powi (- 1074) = 2 * 2 powi (- 1075)" by (simp only: power_int_1_right) simp
qed

text \<open>A value well away from 1 is not rounded to 1.\<close>

lemma fl_not_one:
  assumes "0 < y" and "y \<le> 3 / 5 \<or> 3 / 2 \<le> y"
  shows "fl y \<noteq> Fin 1"
proof
  assume "fl y = Fin 1"
  from fl_error [OF this assms(1)]
  have e: "\<bar>1 - y\<bar> \<le> y * 2 powi (- 53) \<or> \<bar>1 - y\<bar> \<le> 2 powi (- 1075)" .
  define w where "w = y * 2 powi (- 53)"
  define m :: rat where "m = 2 powi (- 1075)"
  have "y * 2 powi (- 53) \<le> y * (1 / 1000)"
    using assms(1) small_units(1) by (intro mult_left_mono) simp_all
  then have w: "w \<le> y / 1000" by (simp only: w_def times_divide_eq_right mult_1_right)
  have m: "m \<le> 1 / 1000" using small_units(3) by (simp only: m_def)
  from e have "\<bar>1 - y\<bar> \<le> w \<or> \<bar>1 - y\<bar> \<le> m" by (simp only: w_def m_def)
  with w m assms show False by (auto simp: abs_if split: if_splits)
qed

text \<open>
  The quotient of a rounded product by one factor stays near the other factor, also when the
  product is so small that its rounding error is large.
\<close>

lemma quotient_near_rate:
  assumes x: "0 < x" and p: "0 < \<rho>" and c: "fl (x * \<rho>) = Fin C" and nz: "C \<noteq> 0"
  shows "(3 \<le> \<rho> \<longrightarrow> 3 / 2 \<le> C / x) \<and> (\<rho> \<le> 7 / 25 \<longrightarrow> C / x \<le> 3 / 5)"
proof -
  define m :: rat where "m = 2 powi (- 1075)"
  define u :: rat where "u = 2 powi (- 53)"
  define P where "P = x * \<rho>"
  have P: "0 < P" using x p by (simp add: P_def)
  have m: "0 < m" and u: "0 < u" "u \<le> 1 / 1000"
    using small_units by (simp_all only: m_def u_def)
  define w where "w = P * u"
  from fl_error [OF c] P have e: "\<bar>C - P\<bar> \<le> w \<or> \<bar>C - P\<bar> \<le> m"
    by (simp only: P_def m_def u_def w_def)
  have "0 \<le> C" using fl_FinD(3) [OF c] x p by auto
  with fl_nonzero_min [OF c nz] have C: "2 * m \<le> C"
    by (simp only: m_def small_units(5) abs_of_nonneg)
  have "P * u \<le> P * (1 / 1000)" using P u by (intro mult_left_mono) simp_all
  then have Pu: "w \<le> P / 1000" by (simp only: w_def times_divide_eq_right mult_1_right)
  have hi: "3 * x \<le> P" if "3 \<le> \<rho>"
    using that x unfolding P_def by (simp add: mult.commute [of x] mult_right_mono)
  have lo: "P \<le> 7 / 25 * x" if "\<rho> \<le> 7 / 25"
    using that x unfolding P_def by (simp add: mult.commute [of x] mult_right_mono)
  have "3 / 2 * x \<le> C" if "3 \<le> \<rho>"
    using e hi [OF that] C Pu P m by (auto simp: abs_if split: if_splits)
  moreover have "C \<le> 3 / 5 * x" if "\<rho> \<le> 7 / 25"
    using e lo [OF that] C Pu P m by (auto simp: abs_if split: if_splits)
  ultimately show ?thesis using x by (simp add: field_simps)
qed

text \<open>In the normal range the result is finite, with a relative error of at most 2 to the power -53.\<close>

lemma fl_normal_error:
  assumes lo: "2 powi (- 1022) \<le> y" and hi: "y \<le> 2 powi 1023"
  shows "\<exists>f. fl y = Fin f \<and> \<bar>f - y\<bar> \<le> y * 2 powi (- 53)"
proof -
  have y: "0 < y" using lo by (meson less_le_trans zero_less_numeral zero_less_power_int)
  then have nz: "y \<noteq> 0" by simp
  have q: "quantum y \<le> y * 2 powi (- 52)" using quantum_relative [of y] lo y by simp
  have "(2::rat) powi (- 53 + 1) = 2 powi (- 53) * 2 powi 1" by (rule power_int_add) simp
  then have half: "y * 2 powi (- 52) / 2 = y * 2 powi (- 53)"
    by (simp only: power_int_1_right) simp
  have "y * 2 powi (- 53) \<le> y * (1 / 1000)"
    using y small_units(1) by (intro mult_left_mono) simp_all
  then have w: "y * 2 powi (- 53) \<le> y / 1000"
    by (simp only: times_divide_eq_right mult_1_right)
  have "(2::rat) powi (1023 + 1) = 2 powi 1023 * 2 powi 1" by (rule power_int_add) simp
  then have top: "(2::rat) powi 1024 = 2 * 2 powi 1023"
    by (simp only: power_int_1_right) simp
  have "\<bar>y\<bar> + quantum y / 2 < 2 powi 1024"
    using q half w hi y unfolding top by linarith
  from fl_Fin_general [OF nz refl this] obtain f where f: "fl y = Fin f" by blast
  from fl_FinD(1) [OF f nz] q half have "\<bar>f - y\<bar> \<le> y * 2 powi (- 53)" by linarith
  with f show ?thesis by blast
qed

section \<open>Facts about the transfer\<close>

text \<open>The six rates of the table as binary64 values.\<close>

lemma FX_RATES_values:
  "FX_RATES =
     [(''KES-USD'', Fin (7724574080865875 / 1152921504606846976)),
      (''USD-KES'', Fin (597 / 4)),
      (''KES-NGN'', Fin (607985949695017 / 2251799813685248)),
      (''NGN-KES'', Fin (4165829655317709 / 1125899906842624)),
      (''USD-NGN'', Fin 1580),
      (''NGN-USD'', Fin (5810724383218509 / 9223372036854775808))]"
proof -
  have "fl (67 / 10000) = Fin (7724574080865875 / 1152921504606846976)"
    by (subst fl_eval [where e = "- 8"]) (simp_all add: round_even_simps)
  moreover have "fl (14925 / 100) = Fin (597 / 4)"
    by (subst fl_eval [where e = 7]) (simp_all add: round_even_simps)
  moreover have "fl (27 / 100) = Fin (607985949695017 / 2251799813685248)"
    by (subst fl_eval [where e = "- 2"]) (simp_all add: round_even_simps)
  moreover have "fl (370 / 100) = Fin (4165829655317709 / 1125899906842624)"
    by (subst fl_eval [where e = 1]) (simp_all add: round_even_simps)
  moreover have "fl 1580 = Fin 1580"
    by (simp add: fl_numeral)
  moreover have "fl (63 / 100000) = Fin (5810724383218509 / 9223372036854775808)"
    by (subst fl_eval [where e = "- 11"]) (simp_all add: round_even_simps)
  ultimately show ?thesis by (simp only: FX_RATES_def)
qed

lemma rate_exists_all: "c \<noteq> d \<Longrightarrow> rate_exists c d"
  by (cases c; cases d) (simp_all add: rate_exists_def FX_RATES_values)

lemma FX_RATES_truthy:
  "map_of FX_RATES k = Some r \<Longrightarrow> \<exists>x. r = Fin x \<and> 0 < x"
  by (auto simp: FX_RATES_values split: if_splits)

lemma calculateFXConversion_cases:
  assumes "calculateFXConversion amount c d = Some conv"
  shows "(c = d \<and> conv = amount) \<or>
         (c \<noteq> d \<and> (\<exists>r. map_of FX_RATES (currency_str c @ ''-'' @ currency_str d) = Some r
                        \<and> truthy r \<and> conv = num_mul amount r))"
  using assms by (auto simp: calculateFXConversion_def Let_def split: if_splits option.splits)

lemma calculateFXConversion_total:
  "\<exists>conv. calculateFXConversion amount c d = Some conv"
proof (cases "c = d")
  case True
  then show ?thesis by (simp add: calculateFXConversion_def)
next
  case False
  from rate_exists_all [OF False] obtain r where
    r: "map_of FX_RATES (currency_str c @ ''-'' @ currency_str d) = Some r"
    by (auto simp: rate_exists_def)
  from FX_RATES_truthy [OF r] have "truthy r" by (auto simp: truthy_def)
  with r False show ?thesis by (simp add: calculateFXConversion_def)
qed

lemma positive_truthy: "\<not> isNaN a \<Longrightarrow> \<not> num_le a (Fin 0) \<Longrightarrow> truthy a"
  by (cases a) (auto simp: isNaN_def truthy_def)

lemma fail_fields [simp]:
  "accounts (fail st e) = accounts st"
  "transactions (fail st e) = transactions st"
  "transferForm (fail st e) = transferForm st"
  "filters (fail st e) = filters st"
  "error (fail st e) = message e"
  "success (fail st e) = []"
  by (simp_all add: fail_def)

lemma message_nonempty [simp]: "message e \<noteq> []"
  by (cases e) simp_all

lemma message_inject [simp]: "(message e = message e') = (e = e')"
  by (cases e; cases e') simp_all

lemma applyTransfer_fields:
  "accounts (applyTransfer now stamp st src dst amount conv rate) =
     map (\<lambda>acc.
            if acc_id acc = form_fromAccount (transferForm st)
            then acc\<lparr>acc_balance := num_sub (acc_balance acc) amount\<rparr>
            else if acc_id acc = form_toAccount (transferForm st)
            then acc\<lparr>acc_balance := num_add (acc_balance acc) conv\<rparr>
            else acc)
         (accounts st)"
  "transactions (applyTransfer now stamp st src dst amount conv rate) =
     \<lparr>tx_id = toString now, tx_timestamp = stamp, tx_fromAccount = acc_name src,
      tx_toAccount = acc_name dst, tx_fromCurrency = acc_currency src,
      tx_toCurrency = acc_currency dst, tx_amount = amount, tx_convertedAmount = conv,
      tx_fxRate = rate, tx_note = form_note (transferForm st),
      tx_scheduledDate =
        (if form_scheduledDate (transferForm st) = [] then None
         else Some (form_scheduledDate (transferForm st))),
      tx_status = (if form_scheduledDate (transferForm st) = [] then Completed else Scheduled)\<rparr>
     # transactions st"
  "transferForm (applyTransfer now stamp st src dst amount conv rate) = emptyForm"
  "filters (applyTransfer now stamp st src dst amount conv rate) = filters st"
  "error (applyTransfer now stamp st src dst amount conv rate) = []"
  by (simp_all add: applyTransfer_def Let_def)

text \<open>Every call of \<open>handleTransfer\<close> either fails or applies a transfer.\<close>

lemma handleTransfer_cases:
  obtains (failed) e where "handleTransfer now stamp st = fail st e"
  | (applied) src dst conv rate where
      "form_fromAccount (transferForm st) \<noteq> []"
      "form_toAccount (transferForm st) \<noteq> []"
      "form_amount (transferForm st) \<noteq> []"
      "form_fromAccount (transferForm st) \<noteq> form_toAccount (transferForm st)"
      "\<not> isNaN (parseFloat (form_amount (transferForm st)))"
      "\<not> num_le (parseFloat (form_amount (transferForm st))) (Fin 0)"
      "find (\<lambda>acc. acc_id acc = form_fromAccount (transferForm st)) (accounts st) = Some src"
      "find (\<lambda>acc. acc_id acc = form_toAccount (transferForm st)) (accounts st) = Some dst"
      "\<not> num_lt (acc_balance src) (parseFloat (form_amount (transferForm st)))"
      "calculateFXConversion (parseFloat (form_amount (transferForm st))) (acc_currency src)
         (acc_currency dst) = Some conv"
      "truthy conv"
      "rate = (if acc_currency src = acc_currency dst then Fin 1
               else num_div conv (parseFloat (form_amount (transferForm st))))"
      "handleTransfer now stamp st =
         applyTransfer now stamp st src dst (parseFloat (form_amount (transferForm st))) conv rate"
proof (cases "\<exists>e. handleTransfer now stamp st = fail st e")
  case True
  then show ?thesis using failed by blast
next
  case False
  then have nf: "\<And>e. handleTransfer now stamp st \<noteq> fail st e" by blast
  let ?f = "transferForm st"
  let ?a = "parseFloat (form_amount ?f)"
  have f: "form_fromAccount ?f \<noteq> []" "form_toAccount ?f \<noteq> []" "form_amount ?f \<noteq> []"
    using nf [of MissingField] by (auto simp: handleTransfer_def Let_def)
  have d: "form_fromAccount ?f \<noteq> form_toAccount ?f"
    using nf [of SameAccount] f by (auto simp: handleTransfer_def Let_def)
  have a: "\<not> isNaN ?a" "\<not> num_le ?a (Fin 0)"
    using nf [of InvalidAmount] f d by (auto simp: handleTransfer_def Let_def)
  obtain src dst where
    s: "find (\<lambda>acc. acc_id acc = form_fromAccount ?f) (accounts st) = Some src"
    and t: "find (\<lambda>acc. acc_id acc = form_toAccount ?f) (accounts st) = Some dst"
    using nf [of UnknownAccount] f d a
    by (auto simp: handleTransfer_def Let_def split: option.splits)
  have b: "\<not> num_lt (acc_balance src) ?a"
    using nf [of InsufficientBalance] f d a s t by (auto simp: handleTransfer_def Let_def)
  show ?thesis
  proof (cases "acc_currency src = acc_currency dst")
    case True
    show ?thesis
    proof (rule applied [OF f d a s t b])
      show "calculateFXConversion ?a (acc_currency src) (acc_currency dst) = Some ?a"
        using True by (simp add: calculateFXConversion_def)
      show "truthy ?a" using a by (rule positive_truthy)
      show "Fin 1 = (if acc_currency src = acc_currency dst then Fin 1 else num_div ?a ?a)"
        using True by simp
      show "handleTransfer now stamp st = applyTransfer now stamp st src dst ?a ?a (Fin 1)"
        using f d a s t b True by (simp add: handleTransfer_def Let_def)
    qed
  next
    case False
    obtain conv where c: "calculateFXConversion ?a (acc_currency src) (acc_currency dst) = Some conv"
      and tc: "truthy conv"
      using nf [of UnsupportedCurrencyPair] f d a s t b False
      by (auto simp: handleTransfer_def Let_def split: option.splits if_splits)
    show ?thesis
    proof (rule applied [OF f d a s t b c tc])
      show "num_div conv ?a =
            (if acc_currency src = acc_currency dst then Fin 1 else num_div conv ?a)"
        using False by simp
      show "handleTransfer now stamp st =
              applyTransfer now stamp st src dst ?a conv (num_div conv ?a)"
        using f d a s t b False c tc by (simp add: handleTransfer_def Let_def)
    qed
  qed
qed

text \<open>Conversely, when every check of the code passes, the transfer is applied.\<close>

lemma handleTransfer_applied:
  assumes "form_fromAccount (transferForm st) \<noteq> []"
    and "form_toAccount (transferForm st) \<noteq> []"
    and "form_amount (transferForm st) \<noteq> []"
    and "form_fromAccount (transferForm st) \<noteq> form_toAccount (transferForm st)"
    and "\<not> isNaN (parseFloat (form_amount (transferForm st)))"
    and "\<not> num_le (parseFloat (form_amount (transferForm st))) (Fin 0)"
    and "find (\<lambda>acc. acc_id acc = form_fromAccount (transferForm st)) (accounts st) = Some src"
    and "find (\<lambda>acc. acc_id acc = form_toAccount (transferForm st)) (accounts st) = Some dst"
    and "\<not> num_lt (acc_balance src) (parseFloat (form_amount (transferForm st)))"
    and "calculateFXConversion (parseFloat (form_amount (transferForm st))) (acc_currency src)
           (acc_currency dst) = Some conv"
    and "truthy conv"
  shows "handleTransfer now stamp st =
           applyTransfer now stamp st src dst (parseFloat (form_amount (transferForm st))) conv
             (if acc_currency src = acc_currency dst then Fin 1
              else num_div conv (parseFloat (form_amount (transferForm st))))"
proof (cases "acc_currency src = acc_currency dst")
  case True
  with assms(10) have "conv = parseFloat (form_amount (transferForm st))"
    by (simp add: calculateFXConversion_def)
  with assms True show ?thesis by (simp add: handleTransfer_def Let_def)
next
  case False
  with assms show ?thesis by (simp add: handleTransfer_def Let_def)
qed

text \<open>Concrete inputs are evaluated with these rules.\<close>

lemmas parse_simps = parseFloat_def unsigned_decimal_def is_ws_def is_digit_def dec_def
  digit_val_def fl_numeral fl_zero_one

lemma find_map_same:
  assumes "\<And>x. P (f x) = P x"
  shows "find P (map f xs) = map_option f (find P xs)"
  using assms by (induction xs) simp_all

lemma find_SomeD: "find P xs = Some x \<Longrightarrow> P x \<and> x \<in> set xs"
  by (auto simp: find_Some_iff)

lemma num_mul_positive_not_NaN:
  "num_lt (Fin 0) a \<Longrightarrow> 0 < x \<Longrightarrow> num_mul a (Fin x) \<noteq> NaN"
  by (cases a) (simp_all add: fl_not_NaN signed_inf_def)

lemma spec_validate_NoneD:
  assumes "spec_validate st = None"
  shows "form_fromAccount (transferForm st) \<noteq> []"
    and "form_toAccount (transferForm st) \<noteq> []"
    and "form_amount (transferForm st) \<noteq> []"
    and "form_fromAccount (transferForm st) \<noteq> form_toAccount (transferForm st)"
    and "\<not> isNaN (parseFloat (form_amount (transferForm st)))"
    and "num_lt (Fin 0) (parseFloat (form_amount (transferForm st)))"
    and "\<exists>src dst.
           find (\<lambda>acc. acc_id acc = form_fromAccount (transferForm st)) (accounts st) = Some src
           \<and> find (\<lambda>acc. acc_id acc = form_toAccount (transferForm st)) (accounts st) = Some dst
           \<and> num_le (parseFloat (form_amount (transferForm st))) (acc_balance src)"
  using assms
  by (auto simp: spec_validate_def Let_def split: if_splits option.splits)

lemma num_lt_not_le: "num_lt a b \<Longrightarrow> \<not> num_le b a"
  by (cases a; cases b) auto

lemma num_le_not_lt: "num_le a b \<Longrightarrow> \<not> num_lt b a"
  by (cases a; cases b) auto

lemma handleTransfer_unsupported:
  assumes "form_fromAccount (transferForm st) \<noteq> []"
    and "form_toAccount (transferForm st) \<noteq> []"
    and "form_amount (transferForm st) \<noteq> []"
    and "form_fromAccount (transferForm st) \<noteq> form_toAccount (transferForm st)"
    and "\<not> isNaN (parseFloat (form_amount (transferForm st)))"
    and "\<not> num_le (parseFloat (form_amount (transferForm st))) (Fin 0)"
    and "find (\<lambda>acc. acc_id acc = form_fromAccount (transferForm st)) (accounts st) = Some src"
    and "find (\<lambda>acc. acc_id acc = form_toAccount (transferForm st)) (accounts st) = Some dst"
    and "\<not> num_lt (acc_balance src) (parseFloat (form_amount (transferForm st)))"
    and "acc_currency src \<noteq> acc_currency dst"
    and "calculateFXConversion (parseFloat (form_amount (transferForm st))) (acc_currency src)
           (acc_currency dst) = Some conv"
    and "\<not> truthy conv"
  shows "handleTransfer now stamp st = fail st UnsupportedCurrencyPair"
  using assms by (simp add: handleTransfer_def Let_def)

lemma handleTransfer_failure_keeps_state:
  assumes "error (handleTransfer now stamp st) \<noteq> []"
  shows "accounts (handleTransfer now stamp st) = accounts st"
    and "transactions (handleTransfer now stamp st) = transactions st"
    and "transferForm (handleTransfer now stamp st) = transferForm st"
proof -
  have "\<exists>e. handleTransfer now stamp st = fail st e"
  proof (cases rule: handleTransfer_cases [of now stamp st])
    case (failed e)
    then show ?thesis by blast
  next
    case (applied src dst conv rate)
    with assms show ?thesis by (simp add: applyTransfer_fields)
  qed
  then obtain e where "handleTransfer now stamp st = fail st e" ..
  then show "accounts (handleTransfer now stamp st) = accounts st"
    and "transactions (handleTransfer now stamp st) = transactions st"
    and "transferForm (handleTransfer now stamp st) = transferForm st"
    by simp_all
qed

lemma num_not_lt_zero_le: "a \<noteq> NaN \<Longrightarrow> \<not> num_lt (Fin 0) a \<Longrightarrow> num_le a (Fin 0)"
  by (cases a) auto

lemma num_not_le_lt: "a \<noteq> NaN \<Longrightarrow> b \<noteq> NaN \<Longrightarrow> \<not> num_le a b \<Longrightarrow> num_lt b a"
  by (cases a; cases b) auto

text \<open>
  Whatever check of the specification fails first, \<open>handleTransfer\<close> reports it, provided
  no balance is NaN (a comparison with NaN is false, so the code lets a NaN balance pass).
\<close>

lemma spec_failure_is_reported:
  assumes "spec_validate st = Some e"
    and "\<forall>acc \<in> set (accounts st). acc_balance acc \<noteq> NaN"
  shows "handleTransfer now stamp st = fail st e"
proof -
  let ?f = "transferForm st"
  let ?a = "parseFloat (form_amount ?f)"
  show ?thesis
  proof (cases "form_fromAccount ?f = [] \<or> form_toAccount ?f = [] \<or> form_amount ?f = []")
    case True
    with assms(1) show ?thesis by (auto simp: spec_validate_def handleTransfer_def Let_def)
  next
    case f: False
    show ?thesis
    proof (cases "form_fromAccount ?f = form_toAccount ?f")
      case True
      with assms(1) f show ?thesis by (auto simp: spec_validate_def handleTransfer_def Let_def)
    next
      case d: False
      show ?thesis
      proof (cases "isNaN ?a \<or> \<not> num_lt (Fin 0) ?a")
        case True
        then have "isNaN ?a \<or> num_le ?a (Fin 0)"
          using num_not_lt_zero_le [of ?a] by (auto simp: isNaN_def)
        with True assms(1) f d show ?thesis
          by (auto simp: spec_validate_def handleTransfer_def Let_def)
      next
        case a: False
        then have a': "\<not> isNaN ?a" "\<not> num_le ?a (Fin 0)"
          using num_lt_not_le [of "Fin 0" ?a] by auto
        show ?thesis
        proof (cases "find (\<lambda>acc. acc_id acc = form_fromAccount ?f) (accounts st)")
          case None
          with assms(1) f d a a' show ?thesis
            by (auto simp: spec_validate_def handleTransfer_def Let_def)
        next
          case s: (Some src)
          show ?thesis
          proof (cases "find (\<lambda>acc. acc_id acc = form_toAccount ?f) (accounts st)")
            case None
            with assms(1) f d a a' s show ?thesis
              by (auto simp: spec_validate_def handleTransfer_def Let_def)
          next
            case t: (Some dst)
            have "acc_balance src \<noteq> NaN" using assms(2) find_SomeD [OF s] by blast
            moreover have "?a \<noteq> NaN" using a' by (simp add: isNaN_def)
            ultimately have cmp: "\<not> num_le ?a (acc_balance src) \<Longrightarrow> num_lt (acc_balance src) ?a"
              using num_not_le_lt [of ?a "acc_balance src"] by simp
            from assms(1) f d a s t
            have e: "e = InsufficientBalance" "\<not> num_le ?a (acc_balance src)"
              using rate_exists_all [of "acc_currency src" "acc_currency dst"]
              by (auto simp: spec_validate_def Let_def split: if_splits)
            with cmp f d a' s t show ?thesis
              by (simp add: handleTransfer_def Let_def)
          qed
        qed
      qed
    qed
  qed
qed

text \<open>Example 1 evaluated: the checks pass and the transfer is applied with these values.\<close>

lemma example1_applied:
  "handleTransfer now stamp example1 =
     applyTransfer now stamp example1
       \<lparr>acc_id = ''mpesa_kes_1'', acc_name = ''Mpesa_KES_1'', acc_currency = KES,
          acc_balance = Fin 2500000\<rparr>
       \<lparr>acc_id = ''bank_usd_1'', acc_name = ''Bank_USD_1'', acc_currency = USD,
          acc_balance = Fin 45000\<rparr>
       (Fin 100000) (Fin 670) (Fin (7724574080865875 / 1152921504606846976))"
proof -
  have c: "fl (24139294002705859375 / 36028797018963968) = Fin 670"
    by (subst fl_eval [where e = 9]) (simp_all add: round_even_simps)
  have r: "fl (67 / 10000) = Fin (7724574080865875 / 1152921504606846976)"
    by (subst fl_eval [where e = "- 8"]) (simp_all add: round_even_simps)
  show ?thesis
    by (simp add: handleTransfer_def Let_def example1_def initialState_def initialAccounts_def
        fillForm_def parse_simps isNaN_def calculateFXConversion_def FX_RATES_values
        truthy_def c r)
qed

lemma example1_accounts:
  "map acc_balance (accounts (handleTransfer now stamp example1)) =
     [Fin 2400000, Fin 1800000, Fin 5200000, Fin 45670, Fin 78000, Fin 32000, Fin 15000000,
      Fin 8500000, Fin 12000000, Fin 95000]"
  by (simp add: example1_applied applyTransfer_fields)
     (simp add: example1_def initialState_def initialAccounts_def fillForm_def num_sub_def
        fl_numeral)

lemma example1_run: "run initialState example1_events =
    handleTransfer 1730000000000 ''2024-10-27T03:33:20.000Z'' example1"
  by (simp add: run_def example1_events_def example1_def initialState_def emptyForm_def
      fillForm_def)

subsection \<open>The effective rate\<close>

lemma FX_RATES_range:
  assumes "map_of FX_RATES k = Some r"
  shows "\<exists>\<rho>. r = Fin \<rho> \<and> 0 < \<rho> \<and> (3 \<le> \<rho> \<or> \<rho> \<le> 7 / 25)"
  using assms by (auto simp: FX_RATES_values split: if_splits)

text \<open>The effective rate of a conversion between two currencies is never exactly 1.\<close>

lemma cross_rate_not_one:
  assumes r: "map_of FX_RATES k = Some r"
    and a: "\<not> isNaN a" "\<not> num_le a (Fin 0)"
    and t: "truthy (num_mul a r)"
  shows "num_div (num_mul a r) a \<noteq> Fin 1"
proof -
  from FX_RATES_range [OF r] obtain \<rho> where
    \<rho>: "r = Fin \<rho>" "0 < \<rho>" "3 \<le> \<rho> \<or> \<rho> \<le> 7 / 25" by blast
  show ?thesis
  proof (cases a)
    case (Fin x)
    with a have x: "0 < x" by simp
    show ?thesis
    proof (cases "fl (x * \<rho>)")
      case (Fin C)
      with t \<rho>(1) \<open>a = Fin x\<close> have nz: "C \<noteq> 0" by (simp add: truthy_def)
      from quotient_near_rate [OF x \<rho>(2) Fin nz] \<rho>(3)
      have "C / x \<le> 3 / 5 \<or> 3 / 2 \<le> C / x" by blast
      moreover have "0 \<le> C" using fl_FinD(3) [OF Fin] x \<rho>(2) by auto
      with nz x have "0 < C / x" by simp
      ultimately have "fl (C / x) \<noteq> Fin 1" by (rule fl_not_one [rotated])
      with Fin \<rho>(1) \<open>a = Fin x\<close> x show ?thesis by simp
    qed (use \<rho>(1) \<open>a = Fin x\<close> x in \<open>simp_all add: signed_inf_def\<close>)
  qed (use a \<rho> in \<open>simp_all add: isNaN_def signed_inf_def\<close>)
qed

section \<open>Parsing a number with something after it\<close>

text \<open>\<open>dec\<close> reads the digits of \<open>nat_toString\<close> back.\<close>

lemma digit_val_digit_char: "d < 10 \<Longrightarrow> digit_val (digit_char d) = d"
  by (simp add: digit_val_def digit_char_def)

lemma dec_snoc: "dec (ds @ [c]) = 10 * dec ds + digit_val c"
  by (simp add: dec_def)

lemma dec_nat_toString: "dec (nat_toString n) = n"
proof (induction n rule: nat_toString.induct)
  case (1 n)
  show ?case
  proof (cases "n < 10")
    case True
    then show ?thesis
      by (subst nat_toString.simps) (simp add: dec_def digit_val_digit_char)
  next
    case False
    then have "dec (nat_toString n) = 10 * dec (nat_toString (n div 10)) + n mod 10"
      by (subst nat_toString.simps) (simp add: dec_snoc digit_val_digit_char)
    with False "1.IH" show ?thesis by simp
  qed
qed

lemma dec_Nil [simp]: "dec [] = 0"
  by (simp add: dec_def)

lemma digit_not_ws: "is_digit c \<Longrightarrow> \<not> is_ws c"
  by (auto simp: is_digit_def is_ws_def)

lemma digit_not_sign: "is_digit c \<Longrightarrow> c \<noteq> CHR ''-'' \<and> c \<noteq> CHR ''+'' \<and> c \<noteq> CHR ''I''"
  by (auto simp: is_digit_def)

lemma takeWhile_digits:
  assumes "\<forall>c\<in>set ds. is_digit c" and "r = [] \<or> \<not> is_digit (hd r)"
  shows "takeWhile is_digit (ds @ r) = ds" and "dropWhile is_digit (ds @ r) = r"
  using assms by (cases r; simp add: takeWhile_append2 dropWhile_append3 takeWhile_tail)+

text \<open>The integer prefix alone.\<close>

lemma unsigned_decimal_digits:
  assumes ds: "ds \<noteq> []" "\<forall>c\<in>set ds. is_digit c"
    and j: "\<not> is_digit j" "j \<noteq> CHR ''.''" "j \<noteq> CHR ''e''" "j \<noteq> CHR ''E''"
  shows "unsigned_decimal (ds @ j # t) = Some (of_nat (dec ds))"
proof -
  have "takeWhile is_digit (ds @ j # t) = ds" "dropWhile is_digit (ds @ j # t) = j # t"
    using takeWhile_digits [OF ds(2), of "j # t"] j(1) by simp_all
  then show ?thesis using ds(1) j by (simp add: unsigned_decimal_def Let_def)
qed

lemma parseFloat_start:
  assumes "ds \<noteq> []" "\<forall>c\<in>set ds. is_digit c"
  shows "parseFloat (ds @ r) = (case unsigned_decimal (ds @ r) of None \<Rightarrow> NaN | Some v \<Rightarrow> fl v)"
proof -
  obtain d ds' where d: "ds = d # ds'" using assms(1) by (cases ds) auto
  with assms(2) have dd: "is_digit d" by simp
  have "dropWhile is_ws (ds @ r) = ds @ r" using d digit_not_ws [OF dd] by simp
  moreover have "split_sign (ds @ r) = (False, ds @ r)" using d digit_not_sign [OF dd] by simp
  moreover have "\<not> prefix ''Infinity'' (ds @ r)" using d digit_not_sign [OF dd] by auto
  ultimately show ?thesis by (simp add: parseFloat_def split: option.splits)
qed

lemma parseFloat_digits:
  assumes ds: "ds \<noteq> []" "\<forall>c\<in>set ds. is_digit c"
    and j: "\<not> is_digit j" "j \<noteq> CHR ''.''" "j \<noteq> CHR ''e''" "j \<noteq> CHR ''E''"
  shows "parseFloat (ds @ j # t) = fl (of_nat (dec ds))"
  by (simp add: parseFloat_start [OF ds] unsigned_decimal_digits [OF ds j])

text \<open>With a fraction.\<close>

lemma parseFloat_fraction:
  assumes ds: "ds \<noteq> []" "\<forall>c\<in>set ds. is_digit c" and fs: "\<forall>c\<in>set fs. is_digit c"
    and j: "\<not> is_digit j" "j \<noteq> CHR ''e''" "j \<noteq> CHR ''E''"
  shows "parseFloat (ds @ CHR ''.'' # fs @ j # t) =
           fl (of_nat (dec ds) + of_nat (dec fs) / 10 ^ length fs)"
proof -
  have dot: "\<not> is_digit CHR ''.''" by (simp add: is_digit_def)
  have "takeWhile is_digit (ds @ CHR ''.'' # fs @ j # t) = ds"
    "dropWhile is_digit (ds @ CHR ''.'' # fs @ j # t) = CHR ''.'' # fs @ j # t"
    using takeWhile_digits [OF ds(2), of "CHR ''.'' # fs @ j # t"] dot by simp_all
  moreover have "takeWhile is_digit (fs @ j # t) = fs" "dropWhile is_digit (fs @ j # t) = j # t"
    using takeWhile_digits [OF fs, of "j # t"] j(1) by simp_all
  ultimately have "unsigned_decimal (ds @ CHR ''.'' # fs @ j # t) =
      Some (of_nat (dec ds) + of_nat (dec fs) / 10 ^ length fs)"
    using ds(1) j by (simp add: unsigned_decimal_def Let_def)
  then show ?thesis by (simp add: parseFloat_start [OF ds])
qed

text \<open>With an exponent.\<close>

lemma parseFloat_exponent:
  assumes ds: "ds \<noteq> []" "\<forall>c\<in>set ds. is_digit c" and es: "es \<noteq> []" "\<forall>c\<in>set es. is_digit c"
    and j: "\<not> is_digit j"
  shows "parseFloat (ds @ CHR ''e'' # es @ j # t) = fl (of_nat (dec ds) * 10 ^ dec es)"
proof -
  have e: "\<not> is_digit CHR ''e''" by (simp add: is_digit_def)
  obtain d es' where d: "es = d # es'" using es(1) by (cases es) auto
  with es(2) have dd: "is_digit d" by simp
  have "takeWhile is_digit (ds @ CHR ''e'' # es @ j # t) = ds"
    "dropWhile is_digit (ds @ CHR ''e'' # es @ j # t) = CHR ''e'' # es @ j # t"
    using takeWhile_digits [OF ds(2), of "CHR ''e'' # es @ j # t"] e by simp_all
  moreover have "takeWhile is_digit (es @ j # t) = es"
    using takeWhile_digits [OF es(2), of "j # t"] j(1) by simp
  moreover have "split_sign (es @ j # t) = (False, es @ j # t)"
    using d digit_not_sign [OF dd] by simp
  ultimately have "unsigned_decimal (ds @ CHR ''e'' # es @ j # t) =
      Some (of_nat (dec ds) * 10 ^ dec es)"
    using ds(1) es(1) by (simp add: unsigned_decimal_def Let_def)
  then show ?thesis by (simp add: parseFloat_start [OF ds])
qed

text \<open>The same when the string ends after the digits.\<close>

lemma parseFloat_digits_only:
  assumes ds: "ds \<noteq> []" "\<forall>c\<in>set ds. is_digit c"
  shows "parseFloat ds = fl (of_nat (dec ds))"
proof -
  have tw: "takeWhile is_digit ds = ds" and dw: "dropWhile is_digit ds = []"
    using ds(2) by simp_all
  have "unsigned_decimal ds = Some (of_nat (dec ds))"
    unfolding unsigned_decimal_def Let_def tw dw using ds(1) by simp
  then show ?thesis using parseFloat_start [OF ds, of "[]"] by simp
qed

lemma parseFloat_exponent_only:
  assumes ds: "ds \<noteq> []" "\<forall>c\<in>set ds. is_digit c" and es: "es \<noteq> []" "\<forall>c\<in>set es. is_digit c"
  shows "parseFloat (ds @ CHR ''e'' # es) = fl (of_nat (dec ds) * 10 ^ dec es)"
proof -
  have e: "\<not> is_digit CHR ''e''" by (simp add: is_digit_def)
  obtain d es' where d: "es = d # es'" using es(1) by (cases es) auto
  with es(2) have dd: "is_digit d" by simp
  have tw: "takeWhile is_digit (ds @ CHR ''e'' # es) = ds"
    and dw: "dropWhile is_digit (ds @ CHR ''e'' # es) = CHR ''e'' # es"
    using takeWhile_digits [OF ds(2), of "CHR ''e'' # es"] e by simp_all
  have tw': "takeWhile is_digit es = es" using es(2) by simp
  have sg: "split_sign es = (False, es)"
    using d digit_not_sign [OF dd] by simp
  have "exponent_part (CHR ''e'' # es) = int (dec es)"
    unfolding exponent_part.simps sg Let_def prod.case tw' using es(1) by simp
  then have "unsigned_decimal (ds @ CHR ''e'' # es) =
      Some (of_nat (dec ds) * 10 ^ dec es)"
    unfolding unsigned_decimal_def Let_def tw dw using ds(1) by simp
  then show ?thesis by (simp add: parseFloat_start [OF ds])
qed

text \<open>Rounding keeps a number that is at least 1 strictly positive.\<close>

lemma fl_positive:
  assumes "1 \<le> x"
  shows "\<not> isNaN (fl x) \<and> \<not> num_le (fl x) (Fin 0)"
proof (cases "fl x")
  case (Fin y)
  have x: "0 < x" using assms by simp
  define w where "w = x * 2 powi (- 53)"
  define m :: rat where "m = 2 powi (- 1075)"
  have "x * 2 powi (- 53) \<le> x * (1 / 1000)"
    using x small_units(1) by (intro mult_left_mono) simp_all
  then have w: "w \<le> x / 1000" by (simp only: w_def times_divide_eq_right mult_1_right)
  have m: "m \<le> 1 / 1000" using small_units(3) by (simp only: m_def)
  from fl_error [OF Fin x] have "\<bar>y - x\<bar> \<le> w \<or> \<bar>y - x\<bar> \<le> m" by (simp only: w_def m_def)
  with w m assms have "0 < y" by (auto simp: abs_if split: if_splits)
  with Fin show ?thesis by (simp add: isNaN_def)
next
  case NInf
  with fl_nonneg [of x] assms show ?thesis by auto
qed (simp_all add: isNaN_def fl_not_NaN)

lemma exponent_part_literal:
  assumes es: "\<forall>c\<in>set es. is_digit c"
    and c: "c = CHR ''e'' \<or> c = CHR ''E''"
    and sg: "sg = [] \<or> sg = ''+'' \<or> sg = ''-''"
    and j: "\<not> is_digit j" "j \<noteq> CHR ''e''" "j \<noteq> CHR ''E''"
  shows "exponent_part ((if es = [] then [] else c # sg @ es) @ j # t) =
           (if sg = ''-'' then - int (dec es) else int (dec es))"
proof (cases "es = []")
  case True
  with j show ?thesis by simp
next
  case False
  then obtain d es' where d: "es = d # es'" by (cases es) auto
  with es have dd: "is_digit d" by simp
  have tw: "takeWhile is_digit (es @ j # t) = es"
    using takeWhile_digits [OF es, of "j # t"] j(1) by simp
  have "split_sign (sg @ es @ j # t) = (sg = ''-'', es @ j # t)"
    using sg d digit_not_sign [OF dd] by auto
  then have "exponent_part (c # sg @ es @ j # t) =
      (if sg = ''-'' then - int (dec es) else int (dec es))"
    using c False by (auto simp: tw Let_def)
  with False show ?thesis by simp
qed

text \<open>
  \<^verbatim>\<open>parseFloat\<close> reads a decimal literal (digits, an optional fraction, an optional
  exponent) and ignores what follows it.
\<close>

lemma parseFloat_literal:
  assumes ds: "ds \<noteq> []" "\<forall>c\<in>set ds. is_digit c"
    and fs: "\<forall>c\<in>set fs. is_digit c" and es: "\<forall>c\<in>set es. is_digit c"
    and c: "c = CHR ''e'' \<or> c = CHR ''E''"
    and sg: "sg = [] \<or> sg = ''+'' \<or> sg = ''-''"
    and j: "\<not> is_digit j" "j \<noteq> CHR ''.''" "j \<noteq> CHR ''e''" "j \<noteq> CHR ''E''"
  shows "parseFloat (ds @ (if fs = [] then [] else CHR ''.'' # fs)
                       @ (if es = [] then [] else c # sg @ es) @ j # t) =
           fl ((of_nat (dec ds) + of_nat (dec fs) / 10 ^ length fs)
               * 10 powi (if sg = ''-'' then - int (dec es) else int (dec es)))"
proof -
  let ?ex = "(if es = [] then [] else c # sg @ es) @ j # t"
  let ?fr = "(if fs = [] then [] else CHR ''.'' # fs) @ ?ex"
  have nd: "\<not> is_digit CHR ''.''" "\<not> is_digit c" using c by (auto simp: is_digit_def)
  have hx: "\<not> is_digit (hd ?ex)" "hd ?ex \<noteq> CHR ''.''" "?ex \<noteq> []"
    using nd j c by auto
  have hf: "?fr = [] \<or> \<not> is_digit (hd ?fr)" using nd hx by auto
  have tw: "takeWhile is_digit (ds @ ?fr) = ds" and dw: "dropWhile is_digit (ds @ ?fr) = ?fr"
    using takeWhile_digits [OF ds(2) hf] by simp_all
  have tf: "takeWhile is_digit (fs @ ?ex) = fs" and df: "dropWhile is_digit (fs @ ?ex) = ?ex"
    using takeWhile_digits [OF fs, of ?ex] hx(1) by simp_all
  have split: "(case ?fr of [] \<Rightarrow> ([], [])
                | c # r \<Rightarrow> if c = CHR ''.'' then (takeWhile is_digit r, dropWhile is_digit r)
                           else ([], ?fr)) = (fs, ?ex)"
  proof (cases "fs = []")
    case True
    with hx show ?thesis by (cases ?ex) auto
  next
    case False
    then show ?thesis using tf df by simp
  qed
  have "unsigned_decimal (ds @ ?fr) =
      Some ((of_nat (dec ds) + of_nat (dec fs) / 10 ^ length fs)
            * 10 powi (if sg = ''-'' then - int (dec es) else int (dec es)))"
    unfolding unsigned_decimal_def Let_def tw dw split prod.case
      exponent_part_literal [OF es c sg j(1,3,4)]
    using ds(1) by simp
  then show ?thesis using parseFloat_start [OF ds, of ?fr] by simp
qed

lemma is_digit_digit_char: "d < 10 \<Longrightarrow> is_digit (digit_char d)"
proof -
  assume "d < 10"
  then have "d = 0 \<or> d = 1 \<or> d = 2 \<or> d = 3 \<or> d = 4 \<or> d = 5 \<or> d = 6 \<or> d = 7
    \<or> d = 8 \<or> d = 9" by presburger
  then show ?thesis by (elim disjE) (simp_all add: is_digit_def digit_char_def char_of_eq_iff)
qed

lemma nat_toString_digits: "nat_toString n \<noteq> [] \<and> (\<forall>c\<in>set (nat_toString n). is_digit c)"
proof (induction n rule: nat_toString.induct)
  case (1 n)
  show ?case
  proof (cases "n < 10")
    case True
    then show ?thesis by (subst (1 2) nat_toString.simps) (simp add: is_digit_digit_char)
  next
    case False
    with "1.IH" show ?thesis
      by (subst (1 2) nat_toString.simps) (simp add: is_digit_digit_char)
  qed
qed

section \<open>Lower bounds through the arithmetic\<close>

lemma at_least_simps [simp]:
  "at_least L (Fin x) = (L \<le> x)" "at_least L PInf" "\<not> at_least L NaN" "\<not> at_least L NInf"
  by (simp_all add: at_least_def)

lemma at_least_mono: "at_least L b \<Longrightarrow> K \<le> L \<Longrightarrow> at_least K b"
  by (cases b) simp_all

text \<open>Rounding loses at most a thousandth, and much less.\<close>

lemma fl_lower:
  assumes "2 powi (- 1022) \<le> x"
  shows "at_least (x * (999 / 1000)) (fl x)"
proof (cases "fl x")
  case (Fin y)
  have x: "0 < x" using assms by (meson less_le_trans zero_less_numeral zero_less_power_int)
  then have nz: "x \<noteq> 0" by simp
  have q: "quantum x \<le> x * 2 powi (- 52)" using quantum_relative [of x] assms x by simp
  have "(2::rat) powi (- 53 + 1) = 2 powi (- 53) * 2 powi 1" by (rule power_int_add) simp
  then have half: "x * 2 powi (- 52) / 2 = x * 2 powi (- 53)"
    by (simp only: power_int_1_right) simp
  have "x * 2 powi (- 53) \<le> x * (1 / 1000)"
    using x small_units(1) by (intro mult_left_mono) simp_all
  then have w: "x * 2 powi (- 53) \<le> x / 1000"
    by (simp only: times_divide_eq_right mult_1_right)
  from fl_FinD(1) [OF Fin nz] q half w have "\<bar>y - x\<bar> \<le> x / 1000" by linarith
  then have "x * (999 / 1000) \<le> y" by (simp add: abs_if split: if_splits)
  with Fin show ?thesis by simp
next
  case NInf
  have "0 \<le> x" using assms by (meson less_le_trans less_imp_le zero_less_numeral zero_less_power_int)
  from fl_nonneg [OF this] NInf show ?thesis by auto
qed (simp_all add: fl_not_NaN)

lemma fl_bounds:
  assumes "2 powi (- 1022) \<le> x" and "x \<le> 2 powi 1023"
  shows "\<exists>y. fl x = Fin y \<and> x * (999 / 1000) \<le> y \<and> y \<le> x * (1001 / 1000)"
proof -
  have x: "0 < x" using assms(1) by (meson less_le_trans zero_less_numeral zero_less_power_int)
  from fl_normal_error [OF assms] obtain y where
    y: "fl x = Fin y" "\<bar>y - x\<bar> \<le> x * 2 powi (- 53)" by blast
  have "x * 2 powi (- 53) \<le> x * (1 / 1000)"
    using x small_units(1) by (intro mult_left_mono) simp_all
  then have "x * 2 powi (- 53) \<le> x / 1000"
    by (simp only: times_divide_eq_right mult_1_right)
  with y(2) have "\<bar>y - x\<bar> \<le> x / 1000" by linarith
  then have "x * (999 / 1000) \<le> y \<and> y \<le> x * (1001 / 1000)"
    by (simp add: abs_if split: if_splits)
  with y(1) show ?thesis by blast
qed

lemma round_even_ge:
  assumes "of_int k \<le> x"
  shows "k \<le> round_even x"
proof -
  have "k \<le> \<lfloor>x\<rfloor>" using assms by (simp add: le_floor_iff)
  then show ?thesis by (auto simp: round_even_def Let_def)
qed

lemma fl_overflow:
  assumes "2 powi 1024 \<le> x"
  shows "fl x = PInf"
proof -
  have x: "0 < x" using assms by (meson less_le_trans zero_less_numeral zero_less_power_int)
  define e where "e = ilog2 \<bar>x\<bar>"
  have lo: "2 powi e \<le> x" and hi: "x < 2 powi (e + 1)"
    using ilog2_bounds [of "\<bar>x\<bar>"] x by (simp_all add: e_def)
  have "\<not> e + 1 \<le> 1024"
  proof
    assume "e + 1 \<le> 1024"
    then have "(2::rat) powi (e + 1) \<le> 2 powi 1024" by (intro power_int_increasing) simp_all
    with hi assms show False by linarith
  qed
  then have e: "1024 \<le> e" by simp
  then have q: "quantum x = 2 powi (e - 52)" by (simp add: quantum_def e_def max_def)
  define n where "n = round_even (\<bar>x\<bar> / quantum x)"
  have "(2::rat) powi (e - 52 + 52) = 2 powi (e - 52) * 2 powi 52" by (rule power_int_add) simp
  then have split: "(2::rat) powi e = 2 powi (e - 52) * 2 ^ 52" by simp
  have qp: "(0::rat) < 2 powi (e - 52)" by (rule zero_less_power_int) simp
  have "2 ^ 52 * 2 powi (e - 52) \<le> x" using lo unfolding split by (simp add: mult.commute)
  then have "of_int (2 ^ 52) \<le> x / 2 powi (e - 52)"
    using qp by (simp add: pos_le_divide_eq)
  then have "2 ^ 52 \<le> n" unfolding n_def q using x by (intro round_even_ge) simp
  then have "(2::rat) ^ 52 \<le> of_int n"
    by (metis of_int_le_iff of_int_numeral of_int_power)
  then have "(2::rat) ^ 52 * 2 powi (e - 52) \<le> of_int n * 2 powi (e - 52)"
    using qp by (intro mult_right_mono) simp_all
  then have "(2::rat) powi e \<le> of_int n * quantum x"
    unfolding split q by (simp only: mult.commute)
  moreover have "(2::rat) powi 1024 \<le> 2 powi e" using e by (intro power_int_increasing) simp_all
  ultimately have "2 powi 1024 \<le> of_int n * quantum x" by (rule order_trans [rotated])
  then show ?thesis using x unfolding n_def by (simp add: fl_alt Let_def)
qed

lemma at_least_truthy: "at_least K c \<Longrightarrow> 0 < K \<Longrightarrow> truthy c"
  by (cases c) (auto simp: truthy_def)

lemma at_least_add:
  assumes "at_least 0 d" and "at_least K c" and "2 powi (- 1022) \<le> K"
  shows "at_least (K * (999 / 1000)) (num_add d c)"
proof -
  have K: "0 < K" using assms(3) by (meson less_le_trans zero_less_numeral zero_less_power_int)
  show ?thesis
  proof (cases d)
    case (Fin y)
    show ?thesis
    proof (cases c)
      case c: (Fin z)
      from Fin c assms have yz: "0 \<le> y" "K \<le> z" by simp_all
      then have "2 powi (- 1022) \<le> y + z" using assms(3) by linarith
      from fl_lower [OF this] have "at_least ((y + z) * (999 / 1000)) (fl (y + z))" .
      moreover have "K * (999 / 1000) \<le> (y + z) * (999 / 1000)" using yz by simp
      ultimately show ?thesis using Fin c by (simp add: at_least_mono)
    qed (use Fin assms in simp_all)
  next
    case PInf
    with assms show ?thesis by (cases c) simp_all
  qed (use assms in simp_all)
qed

lemma at_least_sub:
  assumes "at_least 0 b" and "\<not> num_lt b (Fin x)"
  shows "at_least 0 (num_sub b (Fin x))"
proof (cases b)
  case (Fin y)
  with assms have "0 \<le> y - x" by simp
  from fl_nonneg [OF this] Fin show ?thesis by (auto simp: num_sub_def)
qed (use assms in \<open>simp_all add: num_sub_def\<close>)

lemma at_least_mul:
  assumes "2 powi (- 1022) \<le> x * \<rho>"
  shows "at_least (x * \<rho> * (999 / 1000)) (num_mul (Fin x) (Fin \<rho>))"
  using fl_lower [OF assms] by simp

lemma fl_nonneg_at_least: "0 \<le> x \<Longrightarrow> at_least 0 (fl x)"
  using fl_nonneg [of x] by auto

section \<open>A valid transfer is applied\<close>

text \<open>
  Let a request pass the six checks of the specification (\<open>spec_validate st = None\<close>),
  let \<open>src\<close> and \<open>dst\<close> be the accounts its ids resolve to and \<open>conv\<close> the
  converted amount, and let \<open>conv\<close> not be zero. Then \<open>conv\<close> is the amount itself when
  the currencies match and the rounded product of the amount and the table's rate otherwise;
  \<open>handleTransfer\<close> subtracts the amount from the balance of the source account and adds
  \<open>conv\<close> to the balance of the destination account, leaving every other account as it
  was; it puts exactly one new transaction in front of the log, with status Scheduled when
  the scheduled-date string is non-empty and Completed otherwise; it resets the form and
  reports no error. Subtraction and addition are those of binary64 numbers.
\<close>

lemma valid_transfer_applied:
  assumes valid: "spec_validate st = None"
    and src: "find (\<lambda>acc. acc_id acc = form_fromAccount (transferForm st)) (accounts st) = Some src"
    and dst: "find (\<lambda>acc. acc_id acc = form_toAccount (transferForm st)) (accounts st) = Some dst"
    and conv: "calculateFXConversion (parseFloat (form_amount (transferForm st)))
                 (acc_currency src) (acc_currency dst) = Some conv"
    and nz: "conv \<noteq> Fin 0"
  shows "(acc_currency src = acc_currency dst \<longrightarrow>
            conv = parseFloat (form_amount (transferForm st)))
       \<and> (\<forall>rate. acc_currency src \<noteq> acc_currency dst \<longrightarrow>
            map_of FX_RATES (currency_str (acc_currency src) @ ''-'' @ currency_str (acc_currency dst))
              = Some rate \<longrightarrow>
            conv = num_mul (parseFloat (form_amount (transferForm st))) rate)
       \<and> accounts (handleTransfer now stamp st) =
            map (\<lambda>acc.
                   if acc_id acc = form_fromAccount (transferForm st)
                   then acc\<lparr>acc_balance :=
                          num_sub (acc_balance acc) (parseFloat (form_amount (transferForm st)))\<rparr>
                   else if acc_id acc = form_toAccount (transferForm st)
                   then acc\<lparr>acc_balance := num_add (acc_balance acc) conv\<rparr>
                   else acc)
                (accounts st)
       \<and> find (\<lambda>acc. acc_id acc = form_fromAccount (transferForm st))
            (accounts (handleTransfer now stamp st)) =
            Some (src\<lparr>acc_balance :=
                    num_sub (acc_balance src) (parseFloat (form_amount (transferForm st)))\<rparr>)
       \<and> find (\<lambda>acc. acc_id acc = form_toAccount (transferForm st))
            (accounts (handleTransfer now stamp st)) =
            Some (dst\<lparr>acc_balance := num_add (acc_balance dst) conv\<rparr>)
       \<and> (\<exists>tx. transactions (handleTransfer now stamp st) = tx # transactions st
              \<and> tx_status tx =
                  (if form_scheduledDate (transferForm st) \<noteq> [] then Scheduled else Completed)
              \<and> tx_amount tx = parseFloat (form_amount (transferForm st))
              \<and> tx_convertedAmount tx = conv
              \<and> tx_fromAccount tx = acc_name src \<and> tx_toAccount tx = acc_name dst
              \<and> tx_fromCurrency tx = acc_currency src \<and> tx_toCurrency tx = acc_currency dst)
       \<and> transferForm (handleTransfer now stamp st) = emptyForm
       \<and> error (handleTransfer now stamp st) = []"
proof -
  let ?f = "transferForm st"
  let ?a = "parseFloat (form_amount ?f)"
  let ?upd = "\<lambda>acc.
     if acc_id acc = form_fromAccount ?f
     then acc\<lparr>acc_balance := num_sub (acc_balance acc) ?a\<rparr>
     else if acc_id acc = form_toAccount ?f
     then acc\<lparr>acc_balance := num_add (acc_balance acc) conv\<rparr>
     else acc"
  note v = spec_validate_NoneD [OF valid]
  have pos: "\<not> num_le ?a (Fin 0)" using v(6) by (rule num_lt_not_le)
  from v(7) src dst have "num_le ?a (acc_balance src)" by auto
  then have bal: "\<not> num_lt (acc_balance src) ?a" by (rule num_le_not_lt)
  from calculateFXConversion_cases [OF conv]
  have shape: "(acc_currency src = acc_currency dst \<and> conv = ?a) \<or>
     (acc_currency src \<noteq> acc_currency dst \<and>
      (\<exists>r. map_of FX_RATES (currency_str (acc_currency src) @ ''-'' @ currency_str (acc_currency dst))
             = Some r \<and> truthy r \<and> conv = num_mul ?a r))" .
  have "conv \<noteq> NaN"
  proof (cases "acc_currency src = acc_currency dst")
    case True
    with shape v(5) show ?thesis by (auto simp: isNaN_def)
  next
    case False
    with shape obtain r where
      r: "map_of FX_RATES (currency_str (acc_currency src) @ ''-'' @ currency_str (acc_currency dst))
            = Some r" "conv = num_mul ?a r" by auto
    from FX_RATES_truthy [OF r(1)] obtain x where "r = Fin x" "0 < x" by auto
    with r(2) v(6) show ?thesis by (simp add: num_mul_positive_not_NaN)
  qed
  with nz have tr: "truthy conv" by (simp add: truthy_def)
  have run: "handleTransfer now stamp st =
       applyTransfer now stamp st src dst ?a conv
         (if acc_currency src = acc_currency dst then Fin 1 else num_div conv ?a)"
    by (rule handleTransfer_applied [OF v(1-5) pos src dst bal conv tr])
  have ids: "acc_id src = form_fromAccount ?f" "acc_id dst = form_toAccount ?f"
    using find_SomeD [OF src] find_SomeD [OF dst] by simp_all
  have accs: "accounts (handleTransfer now stamp st) = map ?upd (accounts st)"
    by (simp only: run applyTransfer_fields)
  have keep: "\<And>i acc. (acc_id (?upd acc) = i) = (acc_id acc = i)" by simp
  have fs: "find (\<lambda>acc. acc_id acc = form_fromAccount ?f) (accounts (handleTransfer now stamp st))
            = Some (src\<lparr>acc_balance := num_sub (acc_balance src) ?a\<rparr>)"
    unfolding accs by (subst find_map_same) (simp_all add: src ids)
  have fd: "find (\<lambda>acc. acc_id acc = form_toAccount ?f) (accounts (handleTransfer now stamp st))
            = Some (dst\<lparr>acc_balance := num_add (acc_balance dst) conv\<rparr>)"
    unfolding accs using v(4) by (subst find_map_same) (simp_all add: dst ids)
  have c1: "acc_currency src = acc_currency dst \<longrightarrow> conv = ?a" using shape by auto
  have c2: "\<forall>rate. acc_currency src \<noteq> acc_currency dst \<longrightarrow>
            map_of FX_RATES (currency_str (acc_currency src) @ ''-'' @ currency_str (acc_currency dst))
              = Some rate \<longrightarrow> conv = num_mul ?a rate"
    using shape by auto
  have txs: "\<exists>tx. transactions (handleTransfer now stamp st) = tx # transactions st
              \<and> tx_status tx =
                  (if form_scheduledDate ?f \<noteq> [] then Scheduled else Completed)
              \<and> tx_amount tx = ?a \<and> tx_convertedAmount tx = conv
              \<and> tx_fromAccount tx = acc_name src \<and> tx_toAccount tx = acc_name dst
              \<and> tx_fromCurrency tx = acc_currency src \<and> tx_toCurrency tx = acc_currency dst"
    by (simp add: run applyTransfer_fields)
  have rest: "transferForm (handleTransfer now stamp st) = emptyForm"
    "error (handleTransfer now stamp st) = []"
    by (simp_all only: run applyTransfer_fields)
  from c1 c2 accs fs fd txs rest show ?thesis by (intro conjI)
qed

text \<open>
  A scheduled transfer of 1,000 from Bank_USD_2 to Bank_KES_1 (rate 149.25): every
  hypothesis holds there, and the balances become 77,000 and 5,349,250.
\<close>

lemma scheduled_transfer_applied:
  "spec_validate scheduledRequest = None
   \<and> find (\<lambda>acc. acc_id acc = ''bank_usd_2'') (accounts (handleTransfer 0 [] scheduledRequest)) =
       Some \<lparr>acc_id = ''bank_usd_2'', acc_name = ''Bank_USD_2'', acc_currency = USD,
              acc_balance = Fin 77000\<rparr>
   \<and> find (\<lambda>acc. acc_id acc = ''bank_kes_1'') (accounts (handleTransfer 0 [] scheduledRequest)) =
       Some \<lparr>acc_id = ''bank_kes_1'', acc_name = ''Bank_KES_1'', acc_currency = KES,
              acc_balance = Fin 5349250\<rparr>
   \<and> map tx_status (transactions (handleTransfer 0 [] scheduledRequest)) = [Scheduled]
   \<and> map tx_convertedAmount (transactions (handleTransfer 0 [] scheduledRequest)) = [Fin 149250]
   \<and> transferForm (handleTransfer 0 [] scheduledRequest) = emptyForm
   \<and> error (handleTransfer 0 [] scheduledRequest) = []"
proof -
  let ?src = "\<lparr>acc_id = ''bank_usd_2'', acc_name = ''Bank_USD_2'', acc_currency = USD,
                acc_balance = Fin 78000\<rparr>"
  let ?dst = "\<lparr>acc_id = ''bank_kes_1'', acc_name = ''Bank_KES_1'', acc_currency = KES,
                acc_balance = Fin 5200000\<rparr>"
  have a: "parseFloat ''1000'' = Fin 1000" by (simp add: parse_simps)
  have h1: "spec_validate scheduledRequest = None"
    by (simp add: spec_validate_def Let_def scheduledRequest_def initialState_def
        initialAccounts_def a isNaN_def rate_exists_def FX_RATES_values)
  have h2: "find (\<lambda>acc. acc_id acc = form_fromAccount (transferForm scheduledRequest))
              (accounts scheduledRequest) = Some ?src"
    by (simp add: scheduledRequest_def initialState_def initialAccounts_def)
  have h3: "find (\<lambda>acc. acc_id acc = form_toAccount (transferForm scheduledRequest))
              (accounts scheduledRequest) = Some ?dst"
    by (simp add: scheduledRequest_def initialState_def initialAccounts_def)
  have h4: "calculateFXConversion (parseFloat (form_amount (transferForm scheduledRequest)))
              (acc_currency ?src) (acc_currency ?dst) = Some (Fin 149250)"
    by (simp add: scheduledRequest_def a calculateFXConversion_def FX_RATES_values truthy_def
        fl_numeral)
  have h5: "Fin 149250 \<noteq> Fin 0" by simp
  have s: "num_sub (Fin 78000) (Fin 1000) = Fin 77000" by (simp add: num_sub_def fl_numeral)
  have d: "num_add (Fin 5200000) (Fin 149250) = Fin 5349250" by (simp add: fl_numeral)
  have f: "form_fromAccount (transferForm scheduledRequest) = ''bank_usd_2''"
    "form_toAccount (transferForm scheduledRequest) = ''bank_kes_1''"
    "parseFloat (form_amount (transferForm scheduledRequest)) = Fin 1000"
    "form_scheduledDate (transferForm scheduledRequest) = ''2026-12-24''"
    "transactions scheduledRequest = []"
    by (simp_all add: scheduledRequest_def initialState_def a)
  from valid_transfer_applied [OF h1 h2 h3 h4 h5, of 0 "[]"] h1
  show ?thesis
    by (simp only: f Account.simps s d) auto
qed

text \<open>
  The request \<open>tinyRequest1\<close> asks for 5e-324 KES from Mpesa_KES_1 to Bank_USD_1. The
  amount parses to the least positive binary64 number, and its product with the rate
  0.0067 rounds to zero.
\<close>

lemma tiny_amount1: "parseFloat ''5e-324'' = Fin (1 / 2 ^ 1074)"
  apply (simp add: parse_simps)
  apply (subst fl_eval_subnormal)
    apply (simp_all add: round_even_simps)
  done

lemma tiny_converted1:
  "calculateFXConversion (Fin (1 / 2 ^ 1074)) KES USD = Some (Fin 0)"
  apply (simp add: calculateFXConversion_def FX_RATES_values truthy_def)
  apply (subst fl_eval_subnormal)
    apply (simp_all add: round_even_simps)
  done

lemma tiny_valid1: "spec_validate tinyRequest1 = None"
  by (simp add: spec_validate_def Let_def tinyRequest1_def initialState_def initialAccounts_def
      fillForm_def tiny_amount1 isNaN_def rate_exists_def FX_RATES_values)

lemma tiny_fails1: "handleTransfer 0 [] tinyRequest1 = fail tinyRequest1 UnsupportedCurrencyPair"
proof (rule handleTransfer_unsupported)
  show "find (\<lambda>acc. acc_id acc = form_fromAccount (transferForm tinyRequest1))
          (accounts tinyRequest1) =
        Some \<lparr>acc_id = ''mpesa_kes_1'', acc_name = ''Mpesa_KES_1'', acc_currency = KES,
               acc_balance = Fin 2500000\<rparr>"
    by (simp add: tinyRequest1_def initialState_def initialAccounts_def fillForm_def)
  show "find (\<lambda>acc. acc_id acc = form_toAccount (transferForm tinyRequest1))
          (accounts tinyRequest1) =
        Some \<lparr>acc_id = ''bank_usd_1'', acc_name = ''Bank_USD_1'', acc_currency = USD,
               acc_balance = Fin 45000\<rparr>"
    by (simp add: tinyRequest1_def initialState_def initialAccounts_def fillForm_def)
  have a: "parseFloat (form_amount (transferForm tinyRequest1)) = Fin (1 / 2 ^ 1074)"
    by (simp add: tinyRequest1_def fillForm_def tiny_amount1)
  show "calculateFXConversion (parseFloat (form_amount (transferForm tinyRequest1)))
          (acc_currency \<lparr>acc_id = ''mpesa_kes_1'', acc_name = ''Mpesa_KES_1'', acc_currency = KES,
               acc_balance = Fin 2500000\<rparr>)
          (acc_currency \<lparr>acc_id = ''bank_usd_1'', acc_name = ''Bank_USD_1'', acc_currency = USD,
               acc_balance = Fin 45000\<rparr>) = Some (Fin 0)"
    unfolding a by (simp only: Account.select_convs tiny_converted1)
  show "\<not> truthy (Fin 0)" by (simp add: truthy_def)
qed (simp_all add: tinyRequest1_def initialState_def fillForm_def tiny_amount1 isNaN_def)

text \<open>
  Claim C1 at the failing input. The request \<open>tinyRequest1\<close> passes the six checks of
  the specification: the fields are present, the ids differ and resolve, the amount is
  strictly positive and not above the balance, and the table has a rate for the pair KES
  to USD. The claim has the transfer applied. Instead \<open>handleTransfer\<close> returns with
  the message of an unsupported currency pair, because \<^verbatim>\<open>!converted\<close> takes the
  converted amount zero for a missing conversion: no transaction is put in the log and the
  form is not reset.
\<close>

theorem tiny_transfer_not_applied:
  "spec_validate tinyRequest1 = None
   \<and> map_of FX_RATES ''KES-USD'' = Some (fl (67 / 10000))
   \<and> error (handleTransfer 0 [] tinyRequest1) = message UnsupportedCurrencyPair
   \<and> accounts (handleTransfer 0 [] tinyRequest1) = accounts tinyRequest1
   \<and> transactions (handleTransfer 0 [] tinyRequest1) = transactions tinyRequest1
   \<and> transferForm (handleTransfer 0 [] tinyRequest1) = transferForm tinyRequest1
   \<and> transferForm tinyRequest1 \<noteq> emptyForm"
proof -
  have "map_of FX_RATES ''KES-USD'' = Some (fl (67 / 10000))"
    by (simp add: FX_RATES_def)
  moreover have "transferForm tinyRequest1 \<noteq> emptyForm"
    by (simp add: tinyRequest1_def emptyForm_def fillForm_def)
  ultimately show ?thesis by (simp add: tiny_valid1 tiny_fails1)
qed

section \<open>Failures of the validation\<close>

text \<open>
  Claim C2 fails in one direction. Every pair of distinct currencies has a rate in the
  table (\<open>rate_exists_all\<close>), so a request that passes the first five checks passes the
  sixth, and the claim has it succeed. The request \<open>tinyRequest2\<close> asks for 3e-321 NGN from
  Paystack_NGN_1 to Wise_USD_1: it passes the six checks, the table has the rate 0.00063
  for the pair, and \<open>handleTransfer\<close> fails with the message of an unsupported currency
  pair, because the converted amount rounds to zero. The other direction holds
  (\<open>spec_failure_is_reported\<close>), and a failure changes nothing but the messages
  (\<open>handleTransfer_failure_keeps_state\<close>).
\<close>

lemma tiny_amount2: "parseFloat ''3e-321'' = Fin (607 / 2 ^ 1074)"
  apply (simp add: parse_simps)
  apply (subst fl_eval_subnormal)
    apply (simp_all add: round_even_simps)
  done

lemma tiny_converted2:
  "calculateFXConversion (Fin (607 / 2 ^ 1074)) NGN USD = Some (Fin 0)"
  apply (simp add: calculateFXConversion_def FX_RATES_values truthy_def)
  apply (subst fl_eval_subnormal)
    apply (simp_all add: round_even_simps)
  done

lemma tiny_fails2: "handleTransfer 0 [] tinyRequest2 = fail tinyRequest2 UnsupportedCurrencyPair"
proof (rule handleTransfer_unsupported)
  show "find (\<lambda>acc. acc_id acc = form_fromAccount (transferForm tinyRequest2))
          (accounts tinyRequest2) =
        Some \<lparr>acc_id = ''paystack_ngn_1'', acc_name = ''Paystack_NGN_1'', acc_currency = NGN,
               acc_balance = Fin 12000000\<rparr>"
    by (simp add: tinyRequest2_def initialState_def initialAccounts_def fillForm_def)
  show "find (\<lambda>acc. acc_id acc = form_toAccount (transferForm tinyRequest2))
          (accounts tinyRequest2) =
        Some \<lparr>acc_id = ''wise_usd_1'', acc_name = ''Wise_USD_1'', acc_currency = USD,
               acc_balance = Fin 95000\<rparr>"
    by (simp add: tinyRequest2_def initialState_def initialAccounts_def fillForm_def)
  have a: "parseFloat (form_amount (transferForm tinyRequest2)) = Fin (607 / 2 ^ 1074)"
    by (simp add: tinyRequest2_def fillForm_def tiny_amount2)
  show "calculateFXConversion (parseFloat (form_amount (transferForm tinyRequest2)))
          (acc_currency \<lparr>acc_id = ''paystack_ngn_1'', acc_name = ''Paystack_NGN_1'',
               acc_currency = NGN, acc_balance = Fin 12000000\<rparr>)
          (acc_currency \<lparr>acc_id = ''wise_usd_1'', acc_name = ''Wise_USD_1'', acc_currency = USD,
               acc_balance = Fin 95000\<rparr>) = Some (Fin 0)"
    unfolding a by (simp only: Account.select_convs tiny_converted2)
  show "\<not> truthy (Fin 0)" by (simp add: truthy_def)
qed (simp_all add: tinyRequest2_def initialState_def fillForm_def tiny_amount2 isNaN_def)

text \<open>
  Claim C2 at the failing input: the six checks pass, the rate exists, the call fails with
  UnsupportedCurrencyPair.
\<close>

theorem unsupported_pair_reported_for_supported_pair:
  "spec_validate tinyRequest2 = None
   \<and> map_of FX_RATES ''NGN-USD'' = Some (fl (63 / 100000))
   \<and> handleTransfer 0 [] tinyRequest2 = fail tinyRequest2 UnsupportedCurrencyPair
   \<and> error (handleTransfer 0 [] tinyRequest2) = message UnsupportedCurrencyPair"
proof -
  have "spec_validate tinyRequest2 = None"
    by (simp add: spec_validate_def Let_def tinyRequest2_def initialState_def
        initialAccounts_def fillForm_def tiny_amount2 isNaN_def rate_exists_def FX_RATES_values)
  moreover have "map_of FX_RATES ''NGN-USD'' = Some (fl (63 / 100000))"
    by (simp add: FX_RATES_def)
  ultimately show ?thesis by (simp add: tiny_fails2)
qed

section \<open>No balance becomes negative\<close>

lemma not_negative_simps [simp]:
  "not_negative NaN" "not_negative PInf" "\<not> not_negative NInf"
  "not_negative (Fin x) = (0 \<le> x)"
  by (auto simp: not_negative_def)

lemma not_negative_fl: "0 \<le> x \<Longrightarrow> not_negative (fl x)"
  using fl_nonneg [of x] by auto

lemma not_negative_add: "not_negative a \<Longrightarrow> not_negative b \<Longrightarrow> not_negative (num_add a b)"
  by (cases a; cases b) (simp_all add: not_negative_fl)

lemma not_negative_mul: "not_negative a \<Longrightarrow> not_negative b \<Longrightarrow> not_negative (num_mul a b)"
  by (cases a; cases b) (simp_all add: not_negative_fl signed_inf_def)

lemma not_negative_sub:
  "not_negative b \<Longrightarrow> \<not> num_lt b a \<Longrightarrow> not_negative (num_sub b a)"
  by (cases a; cases b) (simp_all add: num_sub_def not_negative_fl)

lemma not_negative_amount: "\<not> num_le a (Fin 0) \<Longrightarrow> not_negative a"
  by (cases a) simp_all

lemma not_negative_conversion:
  assumes "calculateFXConversion a c d = Some conv" and "not_negative a"
  shows "not_negative conv"
proof -
  from calculateFXConversion_cases [OF assms(1)]
  consider "conv = a"
    | r where "map_of FX_RATES (currency_str c @ ''-'' @ currency_str d) = Some r"
        "conv = num_mul a r"
    by auto
  then show ?thesis
  proof cases
    case 1
    with assms(2) show ?thesis by simp
  next
    case 2
    from FX_RATES_truthy [OF 2(1)] have "not_negative r" by auto
    with assms(2) 2(2) show ?thesis by (simp add: not_negative_mul)
  qed
qed

lemma same_id_same_account:
  assumes "distinct (map acc_id accs)" and "find P accs = Some src"
    and "acc \<in> set accs" and "acc_id acc = acc_id src"
  shows "acc = src"
proof -
  have "src \<in> set accs" using find_SomeD [OF assms(2)] by simp
  moreover have "inj_on acc_id (set accs)" using assms(1) by (simp add: distinct_map)
  ultimately show ?thesis using assms(3,4) by (auto dest: inj_onD)
qed

lemma handleTransfer_ids:
  "map acc_id (accounts (handleTransfer now stamp st)) = map acc_id (accounts st)"
proof (cases rule: handleTransfer_cases [of now stamp st])
  case (failed e)
  then show ?thesis by simp
next
  case (applied src dst conv rate)
  then show ?thesis by (simp add: applyTransfer_fields comp_def)
qed

lemma handleTransfer_ledger_ok:
  assumes "ledger_ok st"
  shows "ledger_ok (handleTransfer now stamp st)"
proof (cases rule: handleTransfer_cases [of now stamp st])
  case (failed e)
  with assms show ?thesis by (simp add: ledger_ok_def)
next
  case (applied src dst conv rate)
  let ?a = "parseFloat (form_amount (transferForm st))"
  from assms have d: "distinct (map acc_id (accounts st))"
    and nn: "\<And>acc. acc \<in> set (accounts st) \<Longrightarrow> not_negative (acc_balance acc)"
    by (simp_all add: ledger_ok_def)
  have a: "not_negative ?a" using applied(6) by (rule not_negative_amount)
  have c: "not_negative conv" using applied(10) a by (rule not_negative_conversion)
  have sid: "acc_id src = form_fromAccount (transferForm st)"
    using find_SomeD [OF applied(7)] by simp
  have "not_negative (acc_balance acc')"
    if "acc' \<in> set (accounts (handleTransfer now stamp st))" for acc'
  proof -
    from that obtain acc where acc: "acc \<in> set (accounts st)"
      and acc': "acc' =
        (if acc_id acc = form_fromAccount (transferForm st)
         then acc\<lparr>acc_balance := num_sub (acc_balance acc) ?a\<rparr>
         else if acc_id acc = form_toAccount (transferForm st)
         then acc\<lparr>acc_balance := num_add (acc_balance acc) conv\<rparr>
         else acc)"
      by (auto simp: applied(13) applyTransfer_fields)
    show ?thesis
    proof (cases "acc_id acc = form_fromAccount (transferForm st)")
      case True
      then have "acc = src"
        using same_id_same_account [OF d applied(7) acc] sid by simp
      with applied(9) nn [OF acc] True acc' show ?thesis
        by (simp add: not_negative_sub)
    next
      case False
      with nn [OF acc] c acc' show ?thesis by (simp add: not_negative_add)
    qed
  qed
  moreover have "distinct (map acc_id (accounts (handleTransfer now stamp st)))"
    using d by (simp only: handleTransfer_ids)
  ultimately show ?thesis by (simp add: ledger_ok_def)
qed

lemma step_ledger_ok: "ledger_ok st \<Longrightarrow> ledger_ok (step st ev)"
proof (cases ev)
  case (FormChange f v)
  assume "ledger_ok st"
  with FormChange show ?thesis by (cases f) (simp_all add: ledger_ok_def)
next
  case (FilterChange f v)
  assume "ledger_ok st"
  with FilterChange show ?thesis by (cases f) (simp_all add: ledger_ok_def)
next
  case ToggleFilters
  assume "ledger_ok st"
  with ToggleFilters show ?thesis by (simp add: ledger_ok_def)
next
  case (Transfer now stamp)
  assume "ledger_ok st"
  with Transfer show ?thesis by (simp add: handleTransfer_ledger_ok)
qed

lemma run_ledger_ok: "ledger_ok st \<Longrightarrow> ledger_ok (run st evs)"
  unfolding run_def by (induction evs arbitrary: st) (simp_all add: step_ledger_ok)

lemma initial_ledger_ok: "ledger_ok initialState"
  by (simp add: ledger_ok_def initialState_def initialAccounts_def)

lemma overdraft_rejected:
  assumes "find (\<lambda>acc. acc_id acc = form_fromAccount (transferForm st)) (accounts st) = Some src"
    and "num_lt (acc_balance src) (parseFloat (form_amount (transferForm st)))"
  shows "\<exists>e. handleTransfer now stamp st = fail st e"
  using assms by (auto simp: handleTransfer_def Let_def split: option.splits)

section \<open>Balances while the amounts are finite\<close>

lemma at_least_zero_add: "at_least 0 d \<Longrightarrow> at_least 0 c \<Longrightarrow> at_least 0 (num_add d c)"
  by (cases d; cases c) (simp_all add: fl_nonneg_at_least)

lemma at_least_zero_conversion:
  assumes "calculateFXConversion (Fin x) c d = Some conv" and "0 < x"
  shows "at_least 0 conv"
proof -
  from calculateFXConversion_cases [OF assms(1)]
  consider "conv = Fin x"
    | r where "map_of FX_RATES (currency_str c @ ''-'' @ currency_str d) = Some r"
        "conv = num_mul (Fin x) r"
    by auto
  then show ?thesis
  proof cases
    case 1
    with assms(2) show ?thesis by simp
  next
    case 2
    from FX_RATES_truthy [OF 2(1)] obtain \<rho> where "r = Fin \<rho>" "0 < \<rho>" by auto
    with 2(2) assms(2) show ?thesis by (simp add: fl_nonneg_at_least)
  qed
qed

lemma parseFloat_empty: "parseFloat [] = NaN"
  by (simp add: parseFloat_def unsigned_decimal_def)

lemma handleTransfer_ledger_nonneg:
  assumes "ledger_nonneg st"
  shows "ledger_nonneg (handleTransfer now stamp st)"
proof (cases rule: handleTransfer_cases [of now stamp st])
  case (failed e)
  with assms show ?thesis by (simp add: ledger_nonneg_def)
next
  case (applied src dst conv rate)
  let ?a = "parseFloat (form_amount (transferForm st))"
  from assms have d: "distinct (map acc_id (accounts st))"
    and nn: "\<And>acc. acc \<in> set (accounts st) \<Longrightarrow> at_least 0 (acc_balance acc)"
    and fin: "?a \<noteq> PInf"
    by (simp_all add: ledger_nonneg_def)
  from applied(5,6) fin obtain x where x: "?a = Fin x" "0 < x"
    by (cases ?a) (simp_all add: isNaN_def)
  have c: "at_least 0 conv" using applied(10) x by (simp add: at_least_zero_conversion)
  have sid: "acc_id src = form_fromAccount (transferForm st)"
    using find_SomeD [OF applied(7)] by simp
  have "at_least 0 (acc_balance acc')"
    if "acc' \<in> set (accounts (handleTransfer now stamp st))" for acc'
  proof -
    from that obtain acc where acc: "acc \<in> set (accounts st)"
      and acc': "acc' =
        (if acc_id acc = form_fromAccount (transferForm st)
         then acc\<lparr>acc_balance := num_sub (acc_balance acc) ?a\<rparr>
         else if acc_id acc = form_toAccount (transferForm st)
         then acc\<lparr>acc_balance := num_add (acc_balance acc) conv\<rparr>
         else acc)"
      by (auto simp: applied(13) applyTransfer_fields)
    show ?thesis
    proof (cases "acc_id acc = form_fromAccount (transferForm st)")
      case True
      then have "acc = src"
        using same_id_same_account [OF d applied(7) acc] sid by simp
      with applied(9) nn [OF acc] True acc' x show ?thesis
        by (simp add: at_least_sub)
    next
      case False
      with nn [OF acc] c acc' show ?thesis by (simp add: at_least_zero_add)
    qed
  qed
  moreover have "distinct (map acc_id (accounts (handleTransfer now stamp st)))"
    using d by (simp only: handleTransfer_ids)
  moreover have "parseFloat (form_amount (transferForm (handleTransfer now stamp st))) \<noteq> PInf"
    by (simp add: applied(13) applyTransfer_fields emptyForm_def parseFloat_empty)
  ultimately show ?thesis by (simp add: ledger_nonneg_def)
qed

lemma step_ledger_nonneg:
  assumes "ledger_nonneg st" and "\<And>v. ev = FormChange Amount v \<Longrightarrow> parseFloat v \<noteq> PInf"
  shows "ledger_nonneg (step st ev)"
proof (cases ev)
  case (FormChange f v)
  with assms show ?thesis by (cases f) (simp_all add: ledger_nonneg_def)
next
  case (FilterChange f v)
  with assms(1) show ?thesis by (cases f) (simp_all add: ledger_nonneg_def)
next
  case ToggleFilters
  with assms(1) show ?thesis by (simp add: ledger_nonneg_def)
next
  case (Transfer now stamp)
  with assms(1) show ?thesis by (simp add: handleTransfer_ledger_nonneg)
qed

lemma run_ledger_nonneg:
  "ledger_nonneg st \<Longrightarrow> (\<And>v. FormChange Amount v \<in> set evs \<Longrightarrow> parseFloat v \<noteq> PInf) \<Longrightarrow>
   ledger_nonneg (run st evs)"
  unfolding run_def
proof (induction evs arbitrary: st)
  case Nil
  then show ?case by simp
next
  case (Cons ev evs)
  have "ledger_nonneg (step st ev)"
    using Cons.prems by (intro step_ledger_nonneg) simp_all
  then have "ledger_nonneg (foldl step (step st ev) evs)"
    using Cons.prems(2) by (intro Cons.IH) simp_all
  then show ?case by simp
qed

lemma initial_ledger_nonneg: "ledger_nonneg initialState"
  by (simp add: ledger_nonneg_def initialState_def initialAccounts_def emptyForm_def
      parseFloat_empty)

section \<open>Transfers in a ledger of the seed's shape\<close>

lemma run_append: "run st (xs @ ys) = run (run st xs) ys"
  by (simp add: run_def)

lemma run_concat_upt:
  "run st (concat (map f [0..<Suc n])) = run (run st (concat (map f [0..<n]))) (f n)"
  by (simp add: run_append)

lemma run_transferEvents:
  "run st (transferEvents src dst amt) =
     handleTransfer 0 []
       (st\<lparr>transferForm := (transferForm st)\<lparr>form_fromAccount := src, form_toAccount := dst,
                                               form_amount := amt\<rparr>\<rparr>)"
  by (simp add: run_def transferEvents_def)

text \<open>One transfer, when every check passes: the two balances move.\<close>

lemma transfer_accounts:
  assumes s: "find (\<lambda>acc. acc_id acc = src) (accounts st) = Some S"
    and d: "find (\<lambda>acc. acc_id acc = dst) (accounts st) = Some D"
    and ne: "src \<noteq> []" "dst \<noteq> []" "amt \<noteq> []" "src \<noteq> dst"
    and a: "parseFloat amt = a" "\<not> isNaN a" "\<not> num_le a (Fin 0)"
    and b: "\<not> num_lt (acc_balance S) a"
    and c: "calculateFXConversion a (acc_currency S) (acc_currency D) = Some conv" "truthy conv"
  shows "accounts (run st (transferEvents src dst amt)) =
     map (\<lambda>acc. if acc_id acc = src then acc\<lparr>acc_balance := num_sub (acc_balance acc) a\<rparr>
                else if acc_id acc = dst then acc\<lparr>acc_balance := num_add (acc_balance acc) conv\<rparr>
                else acc)
       (accounts st)"
proof -
  let ?st = "st\<lparr>transferForm := (transferForm st)\<lparr>form_fromAccount := src,
                 form_toAccount := dst, form_amount := amt\<rparr>\<rparr>"
  have "handleTransfer 0 [] ?st =
      applyTransfer 0 [] ?st S D (parseFloat (form_amount (transferForm ?st))) conv
        (if acc_currency S = acc_currency D then Fin 1
         else num_div conv (parseFloat (form_amount (transferForm ?st))))"
    using assms by (intro handleTransfer_applied) simp_all
  then show ?thesis
    by (simp only: run_transferEvents applyTransfer_fields) (simp add: a(1))
qed

lemma seed_ids:
  "map (\<lambda>acc. (acc_id acc, acc_currency acc)) initialAccounts =
     [(''mpesa_kes_1'', KES), (''mpesa_kes_2'', KES), (''bank_kes_1'', KES),
      (''bank_usd_1'', USD), (''bank_usd_2'', USD), (''bank_usd_3'', USD),
      (''flutterwave_ngn_1'', NGN), (''flutterwave_ngn_2'', NGN), (''paystack_ngn_1'', NGN),
      (''wise_usd_1'', USD)]"
  by (simp add: initialAccounts_def)

lemma seed_shape_find:
  assumes sh: "seed_shape st"
    and i: "(i, c) \<in> set (map (\<lambda>acc. (acc_id acc, acc_currency acc)) initialAccounts)"
  shows "\<exists>S. find (\<lambda>acc. acc_id acc = i) (accounts st) = Some S \<and> acc_currency S = c
              \<and> at_least 0 (acc_balance S) \<and> balance_of st i = Some (acc_balance S)"
proof -
  let ?p = "\<lambda>acc. (acc_id acc, acc_currency acc)"
  from sh have m: "map ?p (accounts st) = map ?p initialAccounts"
    and nn: "\<forall>acc \<in> set (accounts st). at_least 0 (acc_balance acc)"
    by (simp_all add: seed_shape_def)
  from i m have "(i, c) \<in> set (map ?p (accounts st))" by simp
  then obtain A where A: "A \<in> set (accounts st)" "acc_id A = i" by auto
  then have "find (\<lambda>acc. acc_id acc = i) (accounts st) \<noteq> None" by (auto simp: find_None_iff)
  then obtain S where S: "find (\<lambda>acc. acc_id acc = i) (accounts st) = Some S" by auto
  from find_SomeD [OF S] have Si: "acc_id S = i" "S \<in> set (accounts st)" by simp_all
  then have "(i, acc_currency S) \<in> set (map ?p (accounts st))" by force
  with m have j: "(i, acc_currency S) \<in> set (map ?p initialAccounts)" by simp
  have "distinct (map fst (map ?p initialAccounts))" by (simp add: seed_ids)
  from eq_key_imp_eq_value [OF this j i] have "acc_currency S = c" .
  with S Si nn show ?thesis by (auto simp: balance_of_def)
qed

lemma balance_of_map:
  assumes "accounts st' =
     map (\<lambda>acc. if acc_id acc = src then acc\<lparr>acc_balance := f (acc_balance acc)\<rparr>
                else if acc_id acc = dst then acc\<lparr>acc_balance := g (acc_balance acc)\<rparr>
                else acc)
       (accounts st)"
  shows "balance_of st' i =
     map_option (if i = src then f else if i = dst then g else (\<lambda>b. b)) (balance_of st i)"
proof -
  let ?u = "\<lambda>acc. if acc_id acc = src then acc\<lparr>acc_balance := f (acc_balance acc)\<rparr>
                else if acc_id acc = dst then acc\<lparr>acc_balance := g (acc_balance acc)\<rparr>
                else acc"
  have "find (\<lambda>acc. acc_id acc = i) (map ?u (accounts st)) =
        map_option ?u (find (\<lambda>acc. acc_id acc = i) (accounts st))"
    by (rule find_map_same) simp
  then show ?thesis
    unfolding balance_of_def assms
    by (cases "find (\<lambda>acc. acc_id acc = i) (accounts st)")
       (auto dest: find_SomeD)
qed

lemma seed_shape_distinct: "seed_shape st \<Longrightarrow> distinct (map acc_id (accounts st))"
proof -
  assume "seed_shape st"
  then have "map fst (map (\<lambda>acc. (acc_id acc, acc_currency acc)) (accounts st)) =
             map fst (map (\<lambda>acc. (acc_id acc, acc_currency acc)) initialAccounts)"
    by (simp only: seed_shape_def)
  then have "map acc_id (accounts st) = map acc_id initialAccounts" by (simp add: comp_def)
  then show ?thesis by (simp add: initialAccounts_def)
qed

text \<open>
  One transfer of a finite amount in a ledger of the seed's shape: the ledger keeps the
  shape, the source loses the amount, the destination gains the converted amount, and no
  other balance changes.
\<close>

lemma move:
  assumes sh: "seed_shape st"
    and s: "(src, cs) \<in> set (map (\<lambda>acc. (acc_id acc, acc_currency acc)) initialAccounts)"
    and d: "(dst, cd) \<in> set (map (\<lambda>acc. (acc_id acc, acc_currency acc)) initialAccounts)"
    and ne: "src \<noteq> dst" "amt \<noteq> []"
    and a: "parseFloat amt = Fin x" "0 < x"
    and b: "balance_of st src = Some b" "\<not> num_lt b (Fin x)"
    and c: "calculateFXConversion (Fin x) cs cd = Some conv" "at_least K conv" "0 < K"
  shows "seed_shape (run st (transferEvents src dst amt))"
    and "balance_of (run st (transferEvents src dst amt)) src = Some (num_sub b (Fin x))"
    and "\<exists>d0. balance_of st dst = Some d0 \<and> at_least 0 d0
            \<and> balance_of (run st (transferEvents src dst amt)) dst = Some (num_add d0 conv)"
    and "i \<noteq> src \<Longrightarrow> i \<noteq> dst \<Longrightarrow>
           balance_of (run st (transferEvents src dst amt)) i = balance_of st i"
proof -
  let ?st' = "run st (transferEvents src dst amt)"
  let ?u = "\<lambda>acc. if acc_id acc = src then acc\<lparr>acc_balance := num_sub (acc_balance acc) (Fin x)\<rparr>
                else if acc_id acc = dst then acc\<lparr>acc_balance := num_add (acc_balance acc) conv\<rparr>
                else acc"
  from seed_shape_find [OF sh s] obtain S where
    S: "find (\<lambda>acc. acc_id acc = src) (accounts st) = Some S" "acc_currency S = cs"
       "at_least 0 (acc_balance S)" "balance_of st src = Some (acc_balance S)" by blast
  from seed_shape_find [OF sh d] obtain D where
    D: "find (\<lambda>acc. acc_id acc = dst) (accounts st) = Some D" "acc_currency D = cd"
       "at_least 0 (acc_balance D)" "balance_of st dst = Some (acc_balance D)" by blast
  from S(4) b(1) have Sb: "acc_balance S = b" by simp
  have nonempty: "src \<noteq> []" "dst \<noteq> []" using s d by (auto simp: seed_ids)
  have conv0: "at_least 0 conv" using c(2,3) by (cases conv) simp_all
  have acc: "accounts ?st' = map ?u (accounts st)"
  proof (rule transfer_accounts [OF S(1) D(1) nonempty ne(2,1) a(1)])
    show "\<not> isNaN (Fin x)" by (simp add: isNaN_def)
    show "\<not> num_le (Fin x) (Fin 0)" using a(2) by simp
    show "\<not> num_lt (acc_balance S) (Fin x)" using b(2) Sb by simp
    show "calculateFXConversion (Fin x) (acc_currency S) (acc_currency D) = Some conv"
      using c(1) S(2) D(2) by simp
    show "truthy conv" using c(2,3) by (rule at_least_truthy)
  qed
  note bm = balance_of_map [of ?st' src "\<lambda>b. num_sub b (Fin x)" dst "\<lambda>b. num_add b conv" st,
      OF acc]
  show "balance_of ?st' src = Some (num_sub b (Fin x))" using bm [of src] b(1) by simp
  show "\<exists>d0. balance_of st dst = Some d0 \<and> at_least 0 d0
            \<and> balance_of ?st' dst = Some (num_add d0 conv)"
    using bm [of dst] D(3,4) ne(1) by auto
  show "balance_of ?st' i = balance_of st i" if "i \<noteq> src" "i \<noteq> dst"
    using bm [of i] that by (simp add: option.map_ident)
  have dist: "distinct (map acc_id (accounts st))" using sh by (rule seed_shape_distinct)
  have "\<forall>A \<in> set (accounts st). at_least 0 (acc_balance (?u A))"
  proof
    fix A
    assume A: "A \<in> set (accounts st)"
    from sh A have A0: "at_least 0 (acc_balance A)" by (simp add: seed_shape_def)
    show "at_least 0 (acc_balance (?u A))"
    proof (cases "acc_id A = src")
      case True
      from find_SomeD [OF S(1)] True have "acc_id A = acc_id S" by simp
      from same_id_same_account [OF dist S(1) A this] have "A = S" .
      with True Sb b(2) S(3) show ?thesis by (simp add: at_least_sub)
    next
      case False
      show ?thesis
      proof (cases "acc_id A = dst")
        case True
        have "at_least 0 (num_add (acc_balance A) conv)"
          using A0 conv0 by (cases "acc_balance A"; cases conv) (simp_all add: fl_nonneg_at_least)
        with True False show ?thesis by simp
      next
        case F: False
        with False A0 show ?thesis by simp
      qed
    qed
  qed
  then have n: "\<forall>acc \<in> set (accounts ?st'). at_least 0 (acc_balance acc)"
    unfolding acc by (simp only: set_map ball_imageD image_iff) blast
  have "map (\<lambda>acc. (acc_id acc, acc_currency acc)) (map ?u (accounts st)) =
      map (\<lambda>acc. (acc_id acc, acc_currency acc)) (accounts st)"
    by (simp add: comp_def)
  with sh have m: "map (\<lambda>acc. (acc_id acc, acc_currency acc)) (accounts ?st') =
      map (\<lambda>acc. (acc_id acc, acc_currency acc)) initialAccounts"
    by (simp only: acc seed_shape_def)
  from m n show "seed_shape ?st'" unfolding seed_shape_def by (rule conjI)
qed

text \<open>The amounts of a round trip are finite numbers, close to the numbers written.\<close>

lemma pow10_range:
  assumes "n \<le> 307"
  shows "2 powi (- 1022) \<le> (10::rat) ^ n" "(10::rat) ^ n \<le> 2 powi 1023"
    "2 powi (- 1022) \<le> 3 * (10::rat) ^ n" "3 * (10::rat) ^ n \<le> 2 powi 1023"
proof -
  have one: "(1::rat) \<le> 10 ^ n" by simp
  have "(2::rat) powi (- 1022) \<le> 2 powi 0" by (intro power_int_increasing) simp_all
  then have low: "(2::rat) powi (- 1022) \<le> 1" by simp
  have "(10::rat) ^ n \<le> 10 ^ 307" using assms by (intro power_increasing) simp_all
  moreover have "3 * (10::rat) ^ 307 \<le> 2 powi 1023" by simp
  ultimately have top: "3 * (10::rat) ^ n \<le> 2 powi 1023" by linarith
  show "2 powi (- 1022) \<le> (10::rat) ^ n" using one low by linarith
  show "2 powi (- 1022) \<le> 3 * (10::rat) ^ n" using one low by linarith
  show "3 * (10::rat) ^ n \<le> 2 powi 1023" by (rule top)
  show "(10::rat) ^ n \<le> 2 powi 1023" using top one by linarith
qed

lemma amount_1e:
  assumes "n \<le> 307"
  shows "\<exists>x. parseFloat (''1e'' @ nat_toString n) = Fin x
           \<and> 10 ^ n * (999 / 1000) \<le> x \<and> x \<le> 10 ^ n * (1001 / 1000)"
proof -
  have "parseFloat (''1'' @ CHR ''e'' # nat_toString n) =
        fl (of_nat (dec ''1'') * 10 ^ dec (nat_toString n))"
    using nat_toString_digits [of n]
    by (intro parseFloat_exponent_only) (simp_all add: is_digit_def)
  moreover have "dec ''1'' = 1" by (simp add: dec_def digit_val_def)
  ultimately have "parseFloat (''1e'' @ nat_toString n) = fl (10 ^ n)"
    by (simp add: dec_nat_toString)
  with fl_bounds [OF pow10_range(1,2) [OF assms]] show ?thesis by simp
qed

lemma amount_3e:
  assumes "n \<le> 307"
  shows "\<exists>x. parseFloat (''3e'' @ nat_toString n) = Fin x
           \<and> 3 * 10 ^ n * (999 / 1000) \<le> x \<and> x \<le> 3 * 10 ^ n * (1001 / 1000)"
proof -
  have "parseFloat (''3'' @ CHR ''e'' # nat_toString n) =
        fl (of_nat (dec ''3'') * 10 ^ dec (nat_toString n))"
    using nat_toString_digits [of n]
    by (intro parseFloat_exponent_only) (simp_all add: is_digit_def)
  moreover have "dec ''3'' = 3" by (simp add: dec_def digit_val_def)
  ultimately have "parseFloat (''3e'' @ nat_toString n) = fl (3 * 10 ^ n)"
    by (simp add: dec_nat_toString)
  with fl_bounds [OF pow10_range(3,4) [OF assms]] show ?thesis by simp
qed

lemma at_least_not_lt: "at_least L b \<Longrightarrow> x \<le> L \<Longrightarrow> \<not> num_lt b (Fin x)"
  by (cases b) simp_all

lemma conversions:
  "calculateFXConversion (Fin x) USD NGN = Some (num_mul (Fin x) (Fin 1580))"
  "calculateFXConversion (Fin x) NGN KES =
     Some (num_mul (Fin x) (Fin (4165829655317709 / 1125899906842624)))"
  "calculateFXConversion (Fin x) KES USD =
     Some (num_mul (Fin x) (Fin (7724574080865875 / 1152921504606846976)))"
  "calculateFXConversion a KES KES = Some a"
  by (simp_all add: calculateFXConversion_def FX_RATES_values truthy_def del: num_mul.simps)

lemma move_bound:
  assumes sh: "seed_shape st"
    and s: "(src, cs) \<in> set (map (\<lambda>acc. (acc_id acc, acc_currency acc)) initialAccounts)"
    and d: "(dst, cd) \<in> set (map (\<lambda>acc. (acc_id acc, acc_currency acc)) initialAccounts)"
    and ne: "src \<noteq> dst" "amt \<noteq> []"
    and a: "parseFloat amt = Fin x" "0 < x"
    and b: "balance_of st src = Some b" "at_least L b" "x \<le> L"
    and c: "calculateFXConversion (Fin x) cs cd = Some conv" "at_least K conv"
           "2 powi (- 1022) \<le> K"
  shows "seed_shape (run st (transferEvents src dst amt))
     \<and> (\<exists>b'. balance_of (run st (transferEvents src dst amt)) dst = Some b'
              \<and> at_least (K * (999 / 1000)) b')
     \<and> (\<forall>i. i \<noteq> src \<and> i \<noteq> dst \<longrightarrow>
           balance_of (run st (transferEvents src dst amt)) i = balance_of st i)"
proof -
  have K: "0 < K" using c(3) by (meson less_le_trans zero_less_numeral zero_less_power_int)
  have lt: "\<not> num_lt b (Fin x)" using b(2,3) by (rule at_least_not_lt)
  note m = move [OF sh s d ne a b(1) lt c(1,2) K]
  from m(3) obtain d0 where d0: "at_least 0 d0"
    "balance_of (run st (transferEvents src dst amt)) dst = Some (num_add d0 conv)" by blast
  from at_least_add [OF d0(1) c(2,3)] d0(2) m(1) m(4) show ?thesis by blast
qed

lemma tiny_le_one: "(2::rat) powi (- 1022) \<le> 1"
proof -
  have "(2::rat) powi (- 1022) \<le> 2 powi 0" by (intro power_int_increasing) simp_all
  then show ?thesis by simp
qed

text \<open>
  One round trip: if Bank_USD_1 holds at least 1.5e\<open>n\<close> before, it holds at least
  1.5e\<open>n+1\<close> after.
\<close>

lemma round_trip:
  assumes sh: "seed_shape st"
    and u: "balance_of st ''bank_usd_1'' = Some b" "at_least (3 / 2 * 10 ^ n) b"
    and n: "n \<le> 304"
  shows "seed_shape (run st (roundTrip n))
     \<and> (\<exists>b'. balance_of (run st (roundTrip n)) ''bank_usd_1'' = Some b'
              \<and> at_least (3 / 2 * 10 ^ Suc n) b')"
proof -
  define P :: rat where "P = 10 ^ n"
  have P: "1 \<le> P" by (simp add: P_def)
  have p3: "(10::rat) ^ (n + 3) = 1000 * P" by (simp add: P_def power_add)
  have pS: "(10::rat) ^ Suc n = 10 * P" by (simp add: P_def)
  let ?r2 = "4165829655317709 / 1125899906842624 :: rat"
  let ?r3 = "7724574080865875 / 1152921504606846976 :: rat"
  let ?a1 = "''1e'' @ nat_toString n"
  let ?a2 = "''1e'' @ nat_toString (n + 3)"
  let ?a3 = "''3e'' @ nat_toString (n + 3)"
  from amount_1e [of n] n obtain x1 where
    x1: "parseFloat ?a1 = Fin x1" "P * (999 / 1000) \<le> x1" "x1 \<le> P * (1001 / 1000)"
    unfolding P_def by auto
  from amount_1e [of "n + 3"] n obtain x2 where
    x2: "parseFloat ?a2 = Fin x2" "1000 * P * (999 / 1000) \<le> x2"
        "x2 \<le> 1000 * P * (1001 / 1000)"
    unfolding p3 [symmetric] by auto
  from amount_3e [of "n + 3"] n obtain x3 where
    x3: "parseFloat ?a3 = Fin x3" "3 * (1000 * P) * (999 / 1000) \<le> x3"
        "x3 \<le> 3 * (1000 * P) * (1001 / 1000)"
    unfolding p3 [symmetric] by auto
  note low = tiny_le_one
  let ?st1 = "run st (transferEvents ''bank_usd_1'' ''paystack_ngn_1'' ?a1)"
  let ?st2 = "run ?st1 (transferEvents ''paystack_ngn_1'' ''bank_kes_1'' ?a2)"
  let ?st3 = "run ?st2 (transferEvents ''bank_kes_1'' ''bank_usd_1'' ?a3)"
  have run: "run st (roundTrip n) = ?st3" by (simp only: roundTrip_def run_append)
  \<comment> \<open>USD to NGN\<close>
  define K1 where "K1 = x1 * 1580 * (999 / 1000)"
  have k1: "2 powi (- 1022) \<le> x1 * 1580" "2 powi (- 1022) \<le> K1" "0 < x1"
    using x1(2) P low unfolding K1_def by linarith+
  have c1: "at_least K1 (num_mul (Fin x1) (Fin 1580))"
    unfolding K1_def by (rule at_least_mul [OF k1(1)])
  have l1: "x1 \<le> 3 / 2 * 10 ^ n" using x1(3) P unfolding P_def [symmetric] by linarith
  have t1: "seed_shape ?st1
     \<and> (\<exists>b'. balance_of ?st1 ''paystack_ngn_1'' = Some b' \<and> at_least (K1 * (999 / 1000)) b')
     \<and> (\<forall>i. i \<noteq> ''bank_usd_1'' \<and> i \<noteq> ''paystack_ngn_1'' \<longrightarrow>
           balance_of ?st1 i = balance_of st i)"
    by (rule move_bound [OF sh _ _ _ _ x1(1) k1(3) u(1,2) l1 conversions(1) c1 k1(2)])
       (simp_all add: seed_ids)
  then obtain p1 where sh1: "seed_shape ?st1"
    and p1: "balance_of ?st1 ''paystack_ngn_1'' = Some p1" "at_least (K1 * (999 / 1000)) p1"
    by blast
  \<comment> \<open>NGN to KES\<close>
  define K2 where "K2 = x2 * ?r2 * (999 / 1000)"
  have k2: "2 powi (- 1022) \<le> x2 * ?r2" "2 powi (- 1022) \<le> K2" "0 < x2"
    using x2(2) P low unfolding K2_def by linarith+
  have c2: "at_least K2 (num_mul (Fin x2) (Fin ?r2))"
    unfolding K2_def by (rule at_least_mul [OF k2(1)])
  have l2: "x2 \<le> K1 * (999 / 1000)" using x2(3) x1(2) P unfolding K1_def by linarith
  have t2: "seed_shape ?st2
     \<and> (\<exists>b'. balance_of ?st2 ''bank_kes_1'' = Some b' \<and> at_least (K2 * (999 / 1000)) b')
     \<and> (\<forall>i. i \<noteq> ''paystack_ngn_1'' \<and> i \<noteq> ''bank_kes_1'' \<longrightarrow>
           balance_of ?st2 i = balance_of ?st1 i)"
    by (rule move_bound [OF sh1 _ _ _ _ x2(1) k2(3) p1 l2 conversions(2) c2 k2(2)])
       (simp_all add: seed_ids)
  then obtain q2 where sh2: "seed_shape ?st2"
    and q2: "balance_of ?st2 ''bank_kes_1'' = Some q2" "at_least (K2 * (999 / 1000)) q2"
    by blast
  \<comment> \<open>KES to USD\<close>
  define K3 where "K3 = x3 * ?r3 * (999 / 1000)"
  have k3: "2 powi (- 1022) \<le> x3 * ?r3" "2 powi (- 1022) \<le> K3" "0 < x3"
    using x3(2) P low unfolding K3_def by linarith+
  have c3: "at_least K3 (num_mul (Fin x3) (Fin ?r3))"
    unfolding K3_def by (rule at_least_mul [OF k3(1)])
  have l3: "x3 \<le> K2 * (999 / 1000)" using x3(3) x2(2) P unfolding K2_def by linarith
  have t3: "seed_shape ?st3
     \<and> (\<exists>b'. balance_of ?st3 ''bank_usd_1'' = Some b' \<and> at_least (K3 * (999 / 1000)) b')
     \<and> (\<forall>i. i \<noteq> ''bank_kes_1'' \<and> i \<noteq> ''bank_usd_1'' \<longrightarrow>
           balance_of ?st3 i = balance_of ?st2 i)"
    by (rule move_bound [OF sh2 _ _ _ _ x3(1) k3(3) q2 l3 conversions(3) c3 k3(2)])
       (simp_all add: seed_ids)
  then obtain b3 where sh3: "seed_shape ?st3"
    and b3: "balance_of ?st3 ''bank_usd_1'' = Some b3" "at_least (K3 * (999 / 1000)) b3"
    by blast
  have "3 / 2 * 10 ^ Suc n \<le> K3 * (999 / 1000)"
    using x3(2) P unfolding K3_def pS by linarith
  with b3(2) have "at_least (3 / 2 * 10 ^ Suc n) b3" by (rule at_least_mono)
  with sh3 b3(1) show ?thesis unfolding run by blast
qed

lemma seed_shape_initial: "seed_shape initialState"
  by (simp add: seed_shape_def initialState_def initialAccounts_def)

lemma round_trips:
  "n \<le> 305 \<Longrightarrow>
   seed_shape (run initialState (concat (map roundTrip [0..<n])))
   \<and> (\<exists>b. balance_of (run initialState (concat (map roundTrip [0..<n]))) ''bank_usd_1'' = Some b
           \<and> at_least (3 / 2 * 10 ^ n) b)"
proof (induction n)
  case 0
  have "balance_of initialState ''bank_usd_1'' = Some (Fin 45000)"
    by (simp add: balance_of_def initialState_def initialAccounts_def)
  with seed_shape_initial show ?case by (simp add: run_def)
next
  case (Suc n)
  then have n: "n \<le> 304" by simp
  let ?st = "run initialState (concat (map roundTrip [0..<n]))"
  from Suc obtain b where sh: "seed_shape ?st"
    and b: "balance_of ?st ''bank_usd_1'' = Some b" "at_least (3 / 2 * 10 ^ n) b" by auto
  from round_trip [OF sh b n] show ?case by (simp only: run_concat_upt)
qed

lemma nat_toString_305: "nat_toString 305 = ''305''" "nat_toString 307 = ''307''"
  "nat_toString 308 = ''308''"
  by (simp_all add: nat_toString.simps digit_char_def char_of_eq_iff)

lemma amount_8e307:
  "\<exists>x. parseFloat ''8e307'' = Fin x \<and> 8 * 10 ^ 307 * (999 / 1000) \<le> x
       \<and> x \<le> 8 * 10 ^ 307 * (1001 / 1000)"
proof -
  have "parseFloat (''8'' @ CHR ''e'' # ''307'') = fl (of_nat (dec ''8'') * 10 ^ dec ''307'')"
    by (intro parseFloat_exponent_only) (simp_all add: is_digit_def)
  moreover have "dec ''8'' = 8" "dec ''307'' = 307" by (simp_all add: dec_def digit_val_def)
  ultimately have p: "parseFloat ''8e307'' = fl (8 * 10 ^ 307)" by simp
  have "(2::rat) powi (- 1022) \<le> 8 * 10 ^ 307" using tiny_le_one by simp
  moreover have "8 * (10::rat) ^ 307 \<le> 2 powi 1023" by simp
  ultimately show ?thesis using fl_bounds [of "8 * 10 ^ 307"] p by simp
qed

lemma amount_5e308: "parseFloat ''5e308'' = PInf"
proof -
  have "parseFloat (''5'' @ CHR ''e'' # ''308'') = fl (of_nat (dec ''5'') * 10 ^ dec ''308'')"
    by (intro parseFloat_exponent_only) (simp_all add: is_digit_def)
  moreover have "dec ''5'' = 5" "dec ''308'' = 308" by (simp_all add: dec_def digit_val_def)
  ultimately have p: "parseFloat ''5e308'' = fl (5 * 10 ^ 308)" by simp
  have "(2::rat) powi 1024 \<le> 5 * 10 ^ 308" by simp
  from fl_overflow [OF this] p show ?thesis by simp
qed

text \<open>After the events of \<open>overflowEvents\<close> the balance of Bank_KES_1 is Infinity.\<close>

lemma overflow_reached:
  "seed_shape (run initialState overflowEvents)
   \<and> balance_of (run initialState overflowEvents) ''bank_kes_1'' = Some PInf"
proof -
  let ?st = "run initialState (concat (map roundTrip [0..<305]))"
  let ?st1 = "run ?st (transferEvents ''bank_usd_1'' ''paystack_ngn_1'' ''1e305'')"
  let ?st2 = "run ?st1 (transferEvents ''paystack_ngn_1'' ''bank_kes_1'' ''8e307'')"
  let ?r2 = "4165829655317709 / 1125899906842624 :: rat"
  have run: "run initialState overflowEvents = ?st2"
    by (simp only: overflowEvents_def run_append)
  from round_trips [of 305] obtain b where sh: "seed_shape ?st"
    and b: "balance_of ?st ''bank_usd_1'' = Some b" "at_least (3 / 2 * 10 ^ 305) b" by auto
  define P :: rat where "P = 10 ^ 305"
  have P: "1 \<le> P" by (simp add: P_def)
  have P307: "(10::rat) ^ 307 = 100 * P" by (simp add: P_def)
  from amount_1e [of 305] obtain x1 where
    x1: "parseFloat ''1e305'' = Fin x1" "P * (999 / 1000) \<le> x1"
        "x1 \<le> P * (1001 / 1000)"
    unfolding P_def by (auto simp: nat_toString_305)
  define K1 where "K1 = x1 * 1580 * (999 / 1000)"
  have k1: "2 powi (- 1022) \<le> x1 * 1580" "2 powi (- 1022) \<le> K1" "0 < x1"
    using x1(2) P tiny_le_one unfolding K1_def by linarith+
  have c1: "at_least K1 (num_mul (Fin x1) (Fin 1580))"
    unfolding K1_def by (rule at_least_mul [OF k1(1)])
  have l1: "x1 \<le> 3 / 2 * 10 ^ 305" using x1(3) P unfolding P_def [symmetric] by linarith
  have "seed_shape ?st1
     \<and> (\<exists>b'. balance_of ?st1 ''paystack_ngn_1'' = Some b' \<and> at_least (K1 * (999 / 1000)) b')
     \<and> (\<forall>i. i \<noteq> ''bank_usd_1'' \<and> i \<noteq> ''paystack_ngn_1'' \<longrightarrow>
           balance_of ?st1 i = balance_of ?st i)"
    by (rule move_bound [OF sh _ _ _ _ x1(1) k1(3) b l1 conversions(1) c1 k1(2)])
       (simp_all add: seed_ids)
  then obtain p1 where sh1: "seed_shape ?st1"
    and p1: "balance_of ?st1 ''paystack_ngn_1'' = Some p1" "at_least (K1 * (999 / 1000)) p1"
    by blast
  from amount_8e307 obtain x2 where
    x2: "parseFloat ''8e307'' = Fin x2" "8 * 10 ^ 307 * (999 / 1000) \<le> x2"
        "x2 \<le> 8 * 10 ^ 307 * (1001 / 1000)" by blast
  have x2p: "0 < x2" using x2(2) P unfolding P307 by linarith
  have "x2 \<le> K1 * (999 / 1000)" using x2(3) x1(2) P unfolding K1_def P307 by linarith
  with p1(2) have lt: "\<not> num_lt p1 (Fin x2)" by (rule at_least_not_lt)
  have "(2::rat) powi 1024 \<le> 8 * 10 ^ 307 * (999 / 1000) * ?r2" by simp
  also have "\<dots> \<le> x2 * ?r2" using x2(2) by (intro mult_right_mono) simp_all
  finally have "(2::rat) powi 1024 \<le> x2 * ?r2" .
  from fl_overflow [OF this] have inf: "num_mul (Fin x2) (Fin ?r2) = PInf" by simp
  have c2: "calculateFXConversion (Fin x2) NGN KES = Some PInf"
    using conversions(2) [of x2] by (simp only: inf)
  have m: "seed_shape ?st2"
    "\<exists>d0. balance_of ?st1 ''bank_kes_1'' = Some d0 \<and> at_least 0 d0
          \<and> balance_of ?st2 ''bank_kes_1'' = Some (num_add d0 PInf)"
    by (rule move [OF sh1 _ _ _ _ x2(1) x2p p1(1) lt c2, where K = 1]; simp add: seed_ids)+
  from m(2) obtain d0 where "at_least 0 d0"
    "balance_of ?st2 ''bank_kes_1'' = Some (num_add d0 PInf)" by blast
  then have "balance_of ?st2 ''bank_kes_1'' = Some PInf" by (cases d0) simp_all
  with m(1) show ?thesis unfolding run by simp
qed

text \<open>The transfer of 5e308 KES out of an infinite balance leaves NaN.\<close>

lemma nan_reached: "balance_of (run initialState nanEvents) ''bank_kes_1'' = Some NaN"
proof -
  let ?st = "run initialState overflowEvents"
  let ?st' = "run ?st (transferEvents ''bank_kes_1'' ''mpesa_kes_1'' ''5e308'')"
  from overflow_reached have sh: "seed_shape ?st"
    and k: "balance_of ?st ''bank_kes_1'' = Some PInf" by simp_all
  from seed_shape_find [OF sh, of "''bank_kes_1''" KES] obtain S where
    S: "find (\<lambda>acc. acc_id acc = ''bank_kes_1'') (accounts ?st) = Some S"
       "acc_currency S = KES" "balance_of ?st ''bank_kes_1'' = Some (acc_balance S)"
    by (auto simp: seed_ids)
  from seed_shape_find [OF sh, of "''mpesa_kes_1''" KES] obtain D where
    D: "find (\<lambda>acc. acc_id acc = ''mpesa_kes_1'') (accounts ?st) = Some D"
       "acc_currency D = KES"
    by (auto simp: seed_ids)
  from S(3) k have Sb: "acc_balance S = PInf" by simp
  have "accounts ?st' =
     map (\<lambda>acc. if acc_id acc = ''bank_kes_1''
                then acc\<lparr>acc_balance := num_sub (acc_balance acc) PInf\<rparr>
                else if acc_id acc = ''mpesa_kes_1''
                then acc\<lparr>acc_balance := num_add (acc_balance acc) PInf\<rparr>
                else acc)
       (accounts ?st)"
    by (rule transfer_accounts [OF S(1) D(1) _ _ _ _ amount_5e308])
       (simp_all add: isNaN_def Sb S(2) D(2) conversions(4) truthy_def)
  from balance_of_map [OF this, of "''bank_kes_1''"] k
  have "balance_of ?st' ''bank_kes_1'' = Some NaN" by (simp add: num_sub_def)
  then show ?thesis by (simp only: nanEvents_def run_append)
qed

section \<open>Claim C3\<close>

text \<open>
  Claim C3, as amended. From the seed accounts, whatever the user does, no balance is ever
  below zero. As long as every amount entered is a finite number (no amount string parses
  to Infinity), every balance is a number at least zero, possibly Infinity. And a transfer
  that asks for more than the balance of its source account fails and changes neither the
  accounts nor the log.
\<close>

theorem balances_never_negative:
  "(\<forall>acc \<in> set (accounts (run initialState evs)). \<not> num_lt (acc_balance acc) (Fin 0))
   \<and> ((\<forall>v. FormChange Amount v \<in> set evs \<longrightarrow> parseFloat v \<noteq> PInf) \<longrightarrow>
      (\<forall>acc \<in> set (accounts (run initialState evs)). num_le (Fin 0) (acc_balance acc)))
   \<and> (\<forall>src. find (\<lambda>acc. acc_id acc = form_fromAccount (transferForm st)) (accounts st) = Some src
          \<and> num_lt (acc_balance src) (parseFloat (form_amount (transferForm st))) \<longrightarrow>
          error (handleTransfer now stamp st) \<noteq> []
          \<and> accounts (handleTransfer now stamp st) = accounts st
          \<and> transactions (handleTransfer now stamp st) = transactions st)"
proof (intro conjI allI impI ballI)
  fix acc
  assume "acc \<in> set (accounts (run initialState evs))"
  moreover have "ledger_ok (run initialState evs)"
    using initial_ledger_ok by (rule run_ledger_ok)
  ultimately have "not_negative (acc_balance acc)" by (simp add: ledger_ok_def)
  then show "\<not> num_lt (acc_balance acc) (Fin 0)" by (simp add: not_negative_def)
next
  fix acc
  assume fin: "\<forall>v. FormChange Amount v \<in> set evs \<longrightarrow> parseFloat v \<noteq> PInf"
    and acc: "acc \<in> set (accounts (run initialState evs))"
  from fin have "ledger_nonneg (run initialState evs)"
    by (intro run_ledger_nonneg initial_ledger_nonneg) simp
  with acc have "at_least 0 (acc_balance acc)" by (simp add: ledger_nonneg_def)
  then show "num_le (Fin 0) (acc_balance acc)" by (simp only: at_least_def)
next
  fix src
  assume "find (\<lambda>acc. acc_id acc = form_fromAccount (transferForm st)) (accounts st) = Some src
          \<and> num_lt (acc_balance src) (parseFloat (form_amount (transferForm st)))"
  then obtain e where e: "handleTransfer now stamp st = fail st e"
    using overdraft_rejected by blast
  show "error (handleTransfer now stamp st) \<noteq> []" by (simp add: e)
  show "accounts (handleTransfer now stamp st) = accounts st" by (simp add: e)
  show "transactions (handleTransfer now stamp st) = transactions st" by (simp add: e)
qed

text \<open>
  The theorem at Example 1 entered field by field (its one amount, 100000, is finite; the
  debited account is among the accounts afterwards, with 2,400,000, which is at least
  zero) and at Example 3 (10,000,000 asked from 2,500,000).
\<close>

theorem balances_never_negative_witness:
  "parseFloat ''100000'' = Fin 100000
   \<and> \<lparr>acc_id = ''mpesa_kes_1'', acc_name = ''Mpesa_KES_1'', acc_currency = KES,
      acc_balance = Fin 2400000\<rparr> \<in> set (accounts (run initialState example1_events))
   \<and> \<not> num_lt (Fin 2400000) (Fin 0)
   \<and> num_le (Fin 0) (Fin 2400000)
   \<and> find (\<lambda>acc. acc_id acc = form_fromAccount (transferForm overdraftRequest))
         (accounts overdraftRequest) =
       Some \<lparr>acc_id = ''mpesa_kes_1'', acc_name = ''Mpesa_KES_1'', acc_currency = KES,
              acc_balance = Fin 2500000\<rparr>
   \<and> parseFloat (form_amount (transferForm overdraftRequest)) = Fin 10000000
   \<and> num_lt (Fin 2500000) (Fin 10000000)
   \<and> error (handleTransfer 0 [] overdraftRequest) \<noteq> []
   \<and> accounts (handleTransfer 0 [] overdraftRequest) = initialAccounts
   \<and> transactions (handleTransfer 0 [] overdraftRequest) = []"
proof -
  let ?acc = "\<lparr>acc_id = ''mpesa_kes_1'', acc_name = ''Mpesa_KES_1'', acc_currency = KES,
      acc_balance = Fin 2400000\<rparr>"
  let ?src = "\<lparr>acc_id = ''mpesa_kes_1'', acc_name = ''Mpesa_KES_1'', acc_currency = KES,
      acc_balance = Fin 2500000\<rparr>"
  note inst = balances_never_negative [of example1_events overdraftRequest 0 "[]"]
  have p: "parseFloat ''100000'' = Fin 100000" by (simp add: parse_simps)
  then have h: "\<forall>v. FormChange Amount v \<in> set example1_events \<longrightarrow> parseFloat v \<noteq> PInf"
    by (simp add: example1_events_def)
  have m: "?acc \<in> set (accounts (run initialState example1_events))"
    by (simp add: example1_run example1_applied applyTransfer_fields)
       (simp add: example1_def initialState_def initialAccounts_def fillForm_def num_sub_def
          fl_numeral)
  from inst m have n: "\<not> num_lt (acc_balance ?acc) (Fin 0)" by blast
  from inst h m have n': "num_le (Fin 0) (acc_balance ?acc)" by blast
  have f: "find (\<lambda>acc. acc_id acc = form_fromAccount (transferForm overdraftRequest))
         (accounts overdraftRequest) = Some ?src"
    by (simp add: overdraftRequest_def initialState_def initialAccounts_def fillForm_def)
  have a: "parseFloat (form_amount (transferForm overdraftRequest)) = Fin 10000000"
    by (simp add: overdraftRequest_def fillForm_def parse_simps)
  have l: "num_lt (acc_balance ?src) (parseFloat (form_amount (transferForm overdraftRequest)))"
    by (simp add: a)
  from inst f l have r: "error (handleTransfer 0 [] overdraftRequest) \<noteq> []
          \<and> accounts (handleTransfer 0 [] overdraftRequest) = accounts overdraftRequest
          \<and> transactions (handleTransfer 0 [] overdraftRequest) = transactions overdraftRequest"
    by blast
  have s: "accounts overdraftRequest = initialAccounts" "transactions overdraftRequest = []"
    by (simp_all add: overdraftRequest_def initialState_def)
  from p m n n' f a r show ?thesis by (simp add: s)
qed

text \<open>
  Claim C3 as first stated fails: a balance that is not negative need not be at least
  zero. The events \<open>nanEvents\<close> make 918 transfers. The first 915 send money round the
  three currencies, 305 times, each round trip multiplying it; two more bring the balance
  of Bank_KES_1 to Infinity; the last asks for 5e308 KES, which parses to Infinity too and
  passes the balance check, and leaves Infinity minus Infinity, that is NaN, in
  Bank_KES_1. For that balance \<^verbatim>\<open>balance >= 0\<close> is false.
\<close>

theorem balance_becomes_NaN:
  "\<exists>acc \<in> set (accounts (run initialState nanEvents)).
      acc_id acc = ''bank_kes_1'' \<and> acc_balance acc = NaN
      \<and> \<not> num_le (Fin 0) (acc_balance acc)"
proof -
  from nan_reached obtain acc where
    "find (\<lambda>acc. acc_id acc = ''bank_kes_1'') (accounts (run initialState nanEvents)) = Some acc"
    "acc_balance acc = NaN"
    by (auto simp: balance_of_def)
  with find_SomeD [OF this(1)] show ?thesis by auto
qed

section \<open>The filtered history\<close>

lemma includes_str_sublist: "includes_str s t = sublist t s"
  by (induction s) (simp_all add: sublist_Cons_right)

lemmas date_simps = parse_day_def parse_time_def number_of_def days_from_civil_def
  days_in_month_def is_digit_def dec_def digit_val_def Let_def

lemma parse_day_length: "parse_day d = Some n \<Longrightarrow> length d = 10"
  by (simp add: parse_day_def split: if_splits)

text \<open>The two bounds that \<open>matches\<close> computes from a date of the filters.\<close>

lemma hostDate_day:
  "parse_day d = Some n \<Longrightarrow> hostDate offset d = Fin (of_int (n * 86400000))"
  by (frule parse_day_length) (simp add: hostDate_def)

lemma end_of_day_time: "parse_time ''23:59:59'' = Some 86399000"
  by (simp add: date_simps)

lemma hostDate_end_of_day:
  assumes "parse_day d = Some n"
  shows "hostDate offset (d @ ''T23:59:59'') =
           Fin (of_int (n * 86400000 + 86399000 - offset (n * 86400000 + 86399000)))"
proof -
  have l: "length d = 10" using assms by (rule parse_day_length)
  then have "length (d @ ''T23:59:59'') = 19" "(d @ ''T23:59:59'') ! 10 = CHR ''T''"
    "take 10 (d @ ''T23:59:59'') = d" "drop 11 (d @ ''T23:59:59'') = ''23:59:59''"
    by (simp_all add: nth_append)
  then show ?thesis by (simp add: hostDate_def assms end_of_day_time Let_def)
qed

text \<open>
  On a host whose zone is UTC the filtered list is the specification's, for filters whose
  dates are empty or dates of the calendar.
\<close>

lemma filteredTransactions_utc:
  assumes "flt_dateFrom (filters st) = [] \<or> parse_day (flt_dateFrom (filters st)) \<noteq> None"
    and "flt_dateTo (filters st) = [] \<or> parse_day (flt_dateTo (filters st)) \<noteq> None"
  shows "filteredTransactions (hostDate (\<lambda>t. 0)) st =
           filter (\<lambda>tx. spec_matches 0 (hostDate (\<lambda>t. 0) (tx_timestamp tx)) (filters st) tx)
             (transactions st)"
proof -
  have "matches (hostDate (\<lambda>t. 0)) (filters st) tx =
        spec_matches 0 (hostDate (\<lambda>t. 0) (tx_timestamp tx)) (filters st) tx" for tx
    using assms
    by (auto simp: matches_def spec_matches_def Let_def includes_str_sublist hostDate_day
        hostDate_end_of_day)
  then show ?thesis unfolding filteredTransactions_def by (intro filter_cong refl)
qed

text \<open>
  On any host, for such filters: the date-from day starts in UTC, and the date-to day ends
  in the host's zone.
\<close>

lemma matches_host:
  assumes "flt_dateFrom flt = [] \<or> parse_day (flt_dateFrom flt) \<noteq> None"
    and "flt_dateTo flt = [] \<or> parse_day (flt_dateTo flt) \<noteq> None"
  shows "matches (hostDate offset) flt tx =
     (spec_matches 0 (hostDate offset (tx_timestamp tx)) (flt\<lparr>flt_dateTo := []\<rparr>) tx
      \<and> (flt_dateTo flt = []
         \<or> (case parse_day (flt_dateTo flt) of
               None \<Rightarrow> False
             | Some n \<Rightarrow>
                 num_le (hostDate offset (tx_timestamp tx))
                   (Fin (of_int (n * 86400000 + 86399000
                                 - offset (n * 86400000 + 86399000)))))))"
  using assms
  by (auto simp: matches_def spec_matches_def Let_def includes_str_sublist hostDate_day
      hostDate_end_of_day)

lemma filteredTransactions_order: "subseq (filteredTransactions Date st) (transactions st)"
  by (simp add: filteredTransactions_def)

text \<open>
  Claim C5 at a failing input. The host is three hours east of Greenwich and the log holds
  one transfer, made at 00:30 local time on 28 October 2024 (21:30 on 27 October in UTC).
  With both date filters set to 27 October the transfer is within that day taken in UTC,
  and with both set to 28 October it is within that day taken in the host's zone: under
  either reading of the claim one of the two filters lists it. \<open>filteredTransactions\<close>
  lists it under neither: \<^verbatim>\<open>new Date('2024-10-28')\<close> is midnight in UTC, after the
  transfer, and \<^verbatim>\<open>new Date('2024-10-27T23:59:59')\<close> is 23:59:59 local time, before it.
\<close>

theorem date_filter_misses_day:
  "hostDate nairobi (tx_timestamp lateTransfer) = Fin 1730064600000
   \<and> hostDate nairobi ''2024-10-27'' = Fin 1729987200000
   \<and> hostDate nairobi (''2024-10-27'' @ ''T23:59:59'') = Fin 1730062799000
   \<and> hostDate nairobi ''2024-10-28'' = Fin 1730073600000
   \<and> spec_matches 0 (Fin 1730064600000) (filters (oneDay ''2024-10-27'')) lateTransfer
   \<and> spec_matches 10800000 (Fin 1730064600000) (filters (oneDay ''2024-10-28'')) lateTransfer
   \<and> filteredTransactions (hostDate nairobi) (oneDay ''2024-10-27'') = []
   \<and> filteredTransactions (hostDate nairobi) (oneDay ''2024-10-28'') = []"
proof -
  have d: "parse_day ''2024-10-27'' = Some 20023" "parse_day ''2024-10-28'' = Some 20024"
    by (simp_all add: date_simps)
  have t: "hostDate nairobi (tx_timestamp lateTransfer) = Fin 1730064600000"
    by (simp add: lateTransfer_def hostDate_def date_simps)
  have b: "hostDate nairobi ''2024-10-27'' = Fin 1729987200000"
    "hostDate nairobi ''2024-10-27T23:59:59'' = Fin 1730062799000"
    "hostDate nairobi ''2024-10-28'' = Fin 1730073600000"
    "hostDate nairobi ''2024-10-28T23:59:59'' = Fin 1730149199000"
    by (simp_all add: hostDate_def date_simps nairobi_def)
  have s: "spec_matches 0 (Fin 1730064600000) (filters (oneDay ''2024-10-27'')) lateTransfer"
    "spec_matches 10800000 (Fin 1730064600000) (filters (oneDay ''2024-10-28'')) lateTransfer"
    by (simp_all add: spec_matches_def oneDay_def d)
  have f: "filteredTransactions (hostDate nairobi) (oneDay ''2024-10-27'') = []"
    "filteredTransactions (hostDate nairobi) (oneDay ''2024-10-28'') = []"
    by (simp_all add: filteredTransactions_def matches_def oneDay_def t b)
  from t b(1-3) s f show ?thesis by simp
qed

section \<open>Filtering is monotone\<close>

lemma matches_after_change:
  assumes "filter_field f (filters st) = []"
    and "matches Date (filters (handleFilterChange f v st)) tx"
  shows "matches Date (filters st) tx"
  using assms by (cases f) (auto simp: matches_def Let_def split: if_splits)

text \<open>
  Claim C6. When a filter field is empty, setting it to any value, whatever the log and the
  other fields, gives a filtered list whose transactions all belong to the filtered list
  before the change; it is even a subsequence of it.
\<close>

theorem filtering_monotone:
  assumes "filter_field f (filters st) = []"
  shows "set (filteredTransactions Date (handleFilterChange f v st))
           \<subseteq> set (filteredTransactions Date st)
       \<and> subseq (filteredTransactions Date (handleFilterChange f v st))
           (filteredTransactions Date st)"
proof -
  let ?new = "matches Date (filters (handleFilterChange f v st))"
  let ?old = "matches Date (filters st)"
  have t: "transactions (handleFilterChange f v st) = transactions st" by (cases f) simp_all
  have imp: "\<And>tx. ?new tx \<Longrightarrow> ?old tx" using assms by (rule matches_after_change)
  have "filter ?new (transactions st) = filter ?new (filter ?old (transactions st))"
    using imp by (auto intro: filter_cong)
  then have e: "filteredTransactions Date (handleFilterChange f v st) =
                filter ?new (filteredTransactions Date st)"
    by (simp add: filteredTransactions_def t)
  show ?thesis unfolding e by auto
qed

text \<open>
  The theorem at the example log with no filter set: both transactions are listed; with the
  currency filter set to USD only the transfer into a USD account remains.
\<close>

theorem filtering_monotone_witness:
  "filter_field FCurrency (filters exampleHistory) = []
   \<and> map tx_id (filteredTransactions exampleDate exampleHistory) =
       [''1730000060000'', ''1730000000000'']
   \<and> map tx_id (filteredTransactions exampleDate
         (handleFilterChange FCurrency ''USD'' exampleHistory)) = [''1730000000000'']
   \<and> set (filteredTransactions exampleDate (handleFilterChange FCurrency ''USD'' exampleHistory))
       \<subseteq> set (filteredTransactions exampleDate exampleHistory)"
proof -
  have h: "filter_field FCurrency (filters exampleHistory) = []"
    by (simp add: exampleHistory_def initialState_def emptyFilters_def)
  have a: "map tx_id (filteredTransactions exampleDate exampleHistory) =
       [''1730000060000'', ''1730000000000'']"
    by (simp add: filteredTransactions_def exampleHistory_def initialState_def emptyFilters_def
        matches_def exampleLog_def)
  have b: "map tx_id (filteredTransactions exampleDate
         (handleFilterChange FCurrency ''USD'' exampleHistory)) = [''1730000000000'']"
    by (simp add: filteredTransactions_def exampleHistory_def initialState_def emptyFilters_def
        matches_def exampleLog_def)
  from filtering_monotone [OF h, of exampleDate "''USD''"] h a b show ?thesis by blast
qed

section \<open>The worked example\<close>

text \<open>
  Claim C7. A transfer of 100,000 from Mpesa_KES_1 (KES, balance 2,500,000) to Bank_USD_1
  (USD, balance 45,000) with no scheduled date succeeds: no error is reported, the source
  balance becomes 2,400,000, the rate applied is the table's KES to USD rate 0.0067 (the
  binary64 value nearest to it), the converted amount is 670, the destination balance
  becomes 45,670, and the one transaction recorded has status Completed. This holds
  whatever the clock reads.
\<close>

theorem example1_transfer:
  "error (handleTransfer now stamp example1) = [] \<and>
   map (\<lambda>acc. (acc_name acc, acc_currency acc, acc_balance acc))
     (filter (\<lambda>acc. acc_id acc = ''mpesa_kes_1'' \<or> acc_id acc = ''bank_usd_1'')
        (accounts (handleTransfer now stamp example1))) =
     [(''Mpesa_KES_1'', KES, Fin 2400000), (''Bank_USD_1'', USD, Fin 45670)] \<and>
   map_of FX_RATES ''KES-USD'' = Some (fl (67 / 10000)) \<and>
   map (\<lambda>tx. (tx_amount tx, tx_fxRate tx, tx_convertedAmount tx, tx_status tx))
     (transactions (handleTransfer now stamp example1)) =
     [(Fin 100000, fl (67 / 10000), Fin 670, Completed)]"
proof -
  have r: "fl (67 / 10000) = Fin (7724574080865875 / 1152921504606846976)"
    by (subst fl_eval [where e = "- 8"]) (simp_all add: round_even_simps)
  show ?thesis
    by (simp add: example1_applied applyTransfer_fields)
       (simp add: example1_def initialState_def initialAccounts_def fillForm_def num_sub_def
          fl_numeral FX_RATES_values r)
qed

section \<open>Transaction identifiers\<close>

text \<open>
  The identifier of a transaction is the decimal string of the clock reading at its
  creation. Different readings give different strings: \<open>dec\<close> reads the digits back.
\<close>

lemma digit_char_not_minus: "d < 10 \<Longrightarrow> digit_char d \<noteq> CHR ''-''"
  by (auto simp: digit_char_def dest!: arg_cong [where f = "of_char :: char \<Rightarrow> nat"])

lemma nat_toString_no_minus: "CHR ''-'' \<notin> set (nat_toString n)"
proof (induction n rule: nat_toString.induct)
  case (1 n)
  show ?case
  proof (cases "n < 10")
    case True
    then show ?thesis
      by (subst nat_toString.simps) (simp add: digit_char_not_minus [symmetric])
  next
    case False
    then have "set (nat_toString n) =
        set (nat_toString (n div 10)) \<union> {digit_char (n mod 10)}"
      by (subst nat_toString.simps) simp
    with False "1.IH" digit_char_not_minus [of "n mod 10"] show ?thesis by auto
  qed
qed

lemma toString_inject: "toString i = toString j \<Longrightarrow> i = j"
proof -
  assume e: "toString i = toString j"
  have neg: "(i < 0) = (j < 0)"
  proof (rule ccontr)
    assume "(i < 0) \<noteq> (j < 0)"
    moreover from e have "set (toString i) = set (toString j)" by simp
    ultimately show False
      using nat_toString_no_minus [of "nat i"] nat_toString_no_minus [of "nat j"]
      by (auto simp: toString_def split: if_splits)
  qed
  show "i = j"
  proof (cases "i < 0")
    case True
    with neg e have "nat_toString (nat (- i)) = nat_toString (nat (- j))"
      by (simp add: toString_def)
    then have "dec (nat_toString (nat (- i))) = dec (nat_toString (nat (- j)))" by simp
    with True neg show ?thesis by (simp add: dec_nat_toString)
  next
    case False
    with neg e have "nat_toString (nat i) = nat_toString (nat j)"
      by (simp add: toString_def)
    then have "dec (nat_toString (nat i)) = dec (nat_toString (nat j))" by simp
    with False neg show ?thesis by (simp add: dec_nat_toString)
  qed
qed

lemma handleTransfer_log:
  "transactions (handleTransfer now stamp st) = transactions st
   \<or> (\<exists>tx. transactions (handleTransfer now stamp st) = tx # transactions st
          \<and> tx_id tx = toString now)"
proof (cases rule: handleTransfer_cases [of now stamp st])
  case (failed e)
  then show ?thesis by simp
next
  case (applied src dst conv rate)
  then show ?thesis by (simp add: applyTransfer_fields)
qed

lemma step_log_other:
  "\<forall>now stamp. ev \<noteq> Transfer now stamp \<Longrightarrow> transactions (step st ev) = transactions st"
proof (cases ev)
  case (FormChange f v)
  then show ?thesis by (cases f) simp_all
next
  case (FilterChange f v)
  then show ?thesis by (cases f) simp_all
qed simp_all

lemma ids_follow_clock:
  assumes "sorted_wrt (<) (clock_readings evs)"
    and "map tx_id (transactions st) = map toString ks"
    and "sorted_wrt (>) ks"
    and "\<forall>k \<in> set ks. \<forall>n \<in> set (clock_readings evs). k < n"
  shows "\<exists>ks'. map tx_id (transactions (run st evs)) = map toString ks' \<and> sorted_wrt (>) ks'"
  using assms
proof (induction evs arbitrary: st ks)
  case Nil
  then show ?case by (auto simp: run_def)
next
  case (Cons ev evs)
  have r: "run st (ev # evs) = run (step st ev) evs" by (simp add: run_def)
  show ?case
  proof (cases "\<exists>now stamp. ev = Transfer now stamp")
    case False
    then have "transactions (step st ev) = transactions st" by (simp add: step_log_other)
    moreover from False have "clock_readings (ev # evs) = clock_readings evs"
      by (cases ev) simp_all
    ultimately show ?thesis
      unfolding r using Cons.IH [of "step st ev" ks] Cons.prems by simp
  next
    case True
    then obtain now stamp where ev: "ev = Transfer now stamp" by blast
    from Cons.prems(1) ev have s: "sorted_wrt (<) (clock_readings evs)"
      and later: "\<forall>n \<in> set (clock_readings evs). now < n" by simp_all
    from handleTransfer_log [of now stamp st]
    show ?thesis
    proof
      assume "transactions (handleTransfer now stamp st) = transactions st"
      then have "map tx_id (transactions (step st ev)) = map toString ks"
        using Cons.prems(2) ev by simp
      moreover have "\<forall>k \<in> set ks. \<forall>n \<in> set (clock_readings evs). k < n"
        using Cons.prems(4) ev by simp
      ultimately show ?thesis
        unfolding r using Cons.IH [of "step st ev" ks] s Cons.prems(3) by blast
    next
      assume "\<exists>tx. transactions (handleTransfer now stamp st) = tx # transactions st
          \<and> tx_id tx = toString now"
      then have "map tx_id (transactions (step st ev)) = map toString (now # ks)"
        using Cons.prems(2) ev by auto
      moreover have "sorted_wrt (>) (now # ks)"
        using Cons.prems(3,4) ev by auto
      moreover have "\<forall>k \<in> set (now # ks). \<forall>n \<in> set (clock_readings evs). k < n"
        using Cons.prems(4) later ev by auto
      ultimately show ?thesis
        unfolding r using Cons.IH [of "step st ev" "now # ks"] s by blast
    qed
  qed
qed

lemma twoTransfers_ids:
  "map tx_id (transactions (run initialState (twoTransfers t1 t2))) = [toString t2, toString t1]"
  by (simp add: run_def twoTransfers_def initialState_def initialAccounts_def emptyForm_def
      handleTransfer_def Let_def parse_simps isNaN_def applyTransfer_def num_sub_def
      calculateFXConversion_def)

lemma clock_toString: "toString 1730000000000 = ''1730000000000''"
  by (simp add: toString_def nat_toString.simps digit_char_def char_of_eq_iff)

text \<open>
  Claim C8, as amended. If the clock readings seen by the transfer attempts of a run
  strictly increase, then the identifiers in the log are pairwise distinct, and they are
  the decimal strings of numbers that strictly decrease along the log, which is newest
  first: a transaction created later has the larger identifier.
\<close>

theorem ids_unique_when_clock_increases:
  assumes "sorted_wrt (<) (clock_readings evs)"
  shows "distinct (map tx_id (transactions (run initialState evs)))
       \<and> (\<exists>ks. map tx_id (transactions (run initialState evs)) = map toString ks
              \<and> sorted_wrt (>) ks)"
proof -
  have "map tx_id (transactions initialState) = map toString []"
    by (simp add: initialState_def)
  from ids_follow_clock [OF assms this]
  obtain ks where ks: "map tx_id (transactions (run initialState evs)) = map toString ks"
    "sorted_wrt (>) ks" by auto
  from ks(2) have "distinct ks" by (induction ks) auto
  then have "distinct (map toString ks)"
    by (simp add: distinct_map inj_on_def) (blast dest: toString_inject)
  with ks show ?thesis by auto
qed

text \<open>
  The theorem at two transfers made one millisecond apart: the readings increase, and the
  two identifiers differ.
\<close>

theorem ids_unique_when_clock_increases_witness:
  "sorted_wrt (<) (clock_readings (twoTransfers 1730000000000 1730000000001))
   \<and> map tx_id (transactions (run initialState (twoTransfers 1730000000000 1730000000001))) =
       [toString 1730000000001, toString 1730000000000]
   \<and> distinct (map tx_id
        (transactions (run initialState (twoTransfers 1730000000000 1730000000001))))"
proof -
  have s: "sorted_wrt (<) (clock_readings (twoTransfers 1730000000000 1730000000001))"
    by (simp add: twoTransfers_def)
  from ids_unique_when_clock_increases [OF s] s show ?thesis
    by (simp add: twoTransfers_ids)
qed

text \<open>
  Claim C8 as first stated fails: nothing but the clock tells two transactions apart. Two
  successful transfers at the same clock reading get the same identifier.
\<close>

theorem same_clock_reading_same_id:
  "map tx_id (transactions (run initialState (twoTransfers 1730000000000 1730000000000))) =
     [''1730000000000'', ''1730000000000'']
   \<and> \<not> distinct (map tx_id
         (transactions (run initialState (twoTransfers 1730000000000 1730000000000))))"
  by (simp add: twoTransfers_ids clock_toString)

section \<open>The amount check\<close>

text \<open>
  Claim C9. Once the fields are present and the two ids differ, \<open>handleTransfer\<close> reports
  an invalid amount exactly when \<^verbatim>\<open>parseFloat\<close> of the amount string is NaN or at most
  zero. Characters after a numeric prefix do not matter. For every amount string that is a
  decimal literal (digits \<open>ds\<close>, an optional fraction \<open>fs\<close>, an optional exponent \<open>es\<close> with
  an optional sign) followed by a character \<open>j\<close> that cannot continue it and by anything
  else, \<^verbatim>\<open>parseFloat\<close> is the rounded value of the literal. In particular, for digits
  \<open>ds\<close> of a strictly positive number followed by such a character, the amount is the number
  written by \<open>ds\<close>, the amount check passes, and when the remaining checks pass too the
  transfer is applied with that amount.
\<close>

theorem invalid_amount_rejection:
  "(form_fromAccount (transferForm st) \<noteq> [] \<and> form_toAccount (transferForm st) \<noteq> []
      \<and> form_amount (transferForm st) \<noteq> []
      \<and> form_fromAccount (transferForm st) \<noteq> form_toAccount (transferForm st) \<longrightarrow>
      (error (handleTransfer now stamp st) = message InvalidAmount) =
      (isNaN (parseFloat (form_amount (transferForm st)))
       \<or> num_le (parseFloat (form_amount (transferForm st))) (Fin 0)))
   \<and> (ds \<noteq> [] \<and> (\<forall>c\<in>set ds. is_digit c) \<and> (\<forall>c\<in>set fs. is_digit c)
      \<and> (\<forall>c\<in>set es. is_digit c) \<and> (c = CHR ''e'' \<or> c = CHR ''E'')
      \<and> (sg = [] \<or> sg = ''+'' \<or> sg = ''-'')
      \<and> \<not> is_digit j \<and> j \<noteq> CHR ''.'' \<and> j \<noteq> CHR ''e'' \<and> j \<noteq> CHR ''E'' \<longrightarrow>
      parseFloat (ds @ (if fs = [] then [] else CHR ''.'' # fs)
                     @ (if es = [] then [] else c # sg @ es) @ j # t) =
        fl ((of_nat (dec ds) + of_nat (dec fs) / 10 ^ length fs)
            * 10 powi (if sg = ''-'' then - int (dec es) else int (dec es))))
   \<and> (ds \<noteq> [] \<and> (\<forall>c\<in>set ds. is_digit c) \<and> 0 < dec ds
      \<and> \<not> is_digit j \<and> j \<noteq> CHR ''.'' \<and> j \<noteq> CHR ''e'' \<and> j \<noteq> CHR ''E''
      \<and> form_amount (transferForm st) = ds @ j # t
      \<and> form_fromAccount (transferForm st) \<noteq> [] \<and> form_toAccount (transferForm st) \<noteq> []
      \<and> form_fromAccount (transferForm st) \<noteq> form_toAccount (transferForm st) \<longrightarrow>
      parseFloat (ds @ j # t) = fl (of_nat (dec ds))
      \<and> error (handleTransfer now stamp st) \<noteq> message InvalidAmount
      \<and> (find (\<lambda>acc. acc_id acc = form_fromAccount (transferForm st)) (accounts st) = Some src
         \<and> find (\<lambda>acc. acc_id acc = form_toAccount (transferForm st)) (accounts st) = Some dst
         \<and> \<not> num_lt (acc_balance src) (fl (of_nat (dec ds)))
         \<and> calculateFXConversion (fl (of_nat (dec ds))) (acc_currency src) (acc_currency dst)
             = Some conv
         \<and> truthy conv \<longrightarrow>
         handleTransfer now stamp st =
           applyTransfer now stamp st src dst (fl (of_nat (dec ds))) conv
             (if acc_currency src = acc_currency dst then Fin 1
              else num_div conv (fl (of_nat (dec ds))))))"
proof (intro conjI impI)
  assume c: "form_fromAccount (transferForm st) \<noteq> [] \<and> form_toAccount (transferForm st) \<noteq> []
      \<and> form_amount (transferForm st) \<noteq> []
      \<and> form_fromAccount (transferForm st) \<noteq> form_toAccount (transferForm st)"
  let ?bad = "isNaN (parseFloat (form_amount (transferForm st)))
       \<or> num_le (parseFloat (form_amount (transferForm st))) (Fin 0)"
  show "(error (handleTransfer now stamp st) = message InvalidAmount) = ?bad"
  proof
    assume e: "error (handleTransfer now stamp st) = message InvalidAmount"
    with c show ?bad
      by (auto simp: handleTransfer_def Let_def applyTransfer_fields
          split: if_splits option.splits)
  next
    assume ?bad
    with c show "error (handleTransfer now stamp st) = message InvalidAmount"
      by (auto simp: handleTransfer_def Let_def)
  qed
next
  assume "ds \<noteq> [] \<and> (\<forall>c\<in>set ds. is_digit c) \<and> (\<forall>c\<in>set fs. is_digit c)
      \<and> (\<forall>c\<in>set es. is_digit c) \<and> (c = CHR ''e'' \<or> c = CHR ''E'')
      \<and> (sg = [] \<or> sg = ''+'' \<or> sg = ''-'')
      \<and> \<not> is_digit j \<and> j \<noteq> CHR ''.'' \<and> j \<noteq> CHR ''e'' \<and> j \<noteq> CHR ''E''"
  then show "parseFloat (ds @ (if fs = [] then [] else CHR ''.'' # fs)
                     @ (if es = [] then [] else c # sg @ es) @ j # t) =
        fl ((of_nat (dec ds) + of_nat (dec fs) / 10 ^ length fs)
            * 10 powi (if sg = ''-'' then - int (dec es) else int (dec es)))"
    by (intro parseFloat_literal) simp_all
next
  assume a: "ds \<noteq> [] \<and> (\<forall>c\<in>set ds. is_digit c) \<and> 0 < dec ds
      \<and> \<not> is_digit j \<and> j \<noteq> CHR ''.'' \<and> j \<noteq> CHR ''e'' \<and> j \<noteq> CHR ''E''
      \<and> form_amount (transferForm st) = ds @ j # t
      \<and> form_fromAccount (transferForm st) \<noteq> [] \<and> form_toAccount (transferForm st) \<noteq> []
      \<and> form_fromAccount (transferForm st) \<noteq> form_toAccount (transferForm st)"
  then have p: "parseFloat (form_amount (transferForm st)) = fl (of_nat (dec ds))"
    by (simp add: parseFloat_digits)
  from a have "(1::rat) \<le> of_nat (dec ds)" by simp
  from fl_positive [OF this]
  have pos: "\<not> isNaN (fl (of_nat (dec ds)))" "\<not> num_le (fl (of_nat (dec ds))) (Fin 0)"
    by simp_all
  from a show p': "parseFloat (ds @ j # t) = fl (of_nat (dec ds))"
    by (simp add: parseFloat_digits)
  show "error (handleTransfer now stamp st) \<noteq> message InvalidAmount"
    using a p pos
    by (auto simp: handleTransfer_def Let_def applyTransfer_fields
        split: if_splits option.splits)
  assume r: "find (\<lambda>acc. acc_id acc = form_fromAccount (transferForm st)) (accounts st) = Some src
         \<and> find (\<lambda>acc. acc_id acc = form_toAccount (transferForm st)) (accounts st) = Some dst
         \<and> \<not> num_lt (acc_balance src) (fl (of_nat (dec ds)))
         \<and> calculateFXConversion (fl (of_nat (dec ds))) (acc_currency src) (acc_currency dst)
             = Some conv
         \<and> truthy conv"
  have "handleTransfer now stamp st =
           applyTransfer now stamp st src dst (parseFloat (form_amount (transferForm st))) conv
             (if acc_currency src = acc_currency dst then Fin 1
              else num_div conv (parseFloat (form_amount (transferForm st))))"
    using a r pos by (intro handleTransfer_applied) (simp_all add: p')
  then show "handleTransfer now stamp st =
           applyTransfer now stamp st src dst (fl (of_nat (dec ds))) conv
             (if acc_currency src = acc_currency dst then Fin 1
              else num_div conv (fl (of_nat (dec ds))))"
    by (simp only: p)
qed

text \<open>
  The theorem at two requests. With the amount string \<^verbatim>\<open>-5\<close> the fields are present,
  the ids differ, the amount parses to a negative number, and the invalid amount is
  reported. With the amount string \<^verbatim>\<open>100abc\<close> (digits \<^verbatim>\<open>100\<close>, then \<^verbatim>\<open>a\<close>), from
  Mpesa_KES_1 to Mpesa_KES_2, every hypothesis holds, the amount is 100 and the transfer
  is applied: the balances become 2,499,900 and 1,800,100.
\<close>

theorem invalid_amount_rejection_witness:
  "form_fromAccount (transferForm negativeRequest) \<noteq> []
   \<and> form_toAccount (transferForm negativeRequest) \<noteq> []
   \<and> form_amount (transferForm negativeRequest) \<noteq> []
   \<and> form_fromAccount (transferForm negativeRequest) \<noteq> form_toAccount (transferForm negativeRequest)
   \<and> parseFloat (form_amount (transferForm negativeRequest)) = Fin (- 5)
   \<and> num_le (Fin (- 5)) (Fin 0)
   \<and> error (handleTransfer 0 [] negativeRequest) = message InvalidAmount
   \<and> form_amount (transferForm suffixRequest) = ''100'' @ CHR ''a'' # ''bc''
   \<and> dec ''100'' = 100
   \<and> parseFloat ''100abc'' = Fin 100
   \<and> error (handleTransfer 0 [] suffixRequest) = []
   \<and> map tx_amount (transactions (handleTransfer 0 [] suffixRequest)) = [Fin 100]
   \<and> map (\<lambda>acc. (acc_id acc, acc_balance acc))
        (take 2 (accounts (handleTransfer 0 [] suffixRequest))) =
      [(''mpesa_kes_1'', Fin 2499900), (''mpesa_kes_2'', Fin 1800100)]"
proof -
  have f: "form_fromAccount (transferForm negativeRequest) \<noteq> []
     \<and> form_toAccount (transferForm negativeRequest) \<noteq> []
     \<and> form_amount (transferForm negativeRequest) \<noteq> []
     \<and> form_fromAccount (transferForm negativeRequest) \<noteq> form_toAccount (transferForm negativeRequest)"
    by (simp add: negativeRequest_def fillForm_def)
  have a: "parseFloat (form_amount (transferForm negativeRequest)) = Fin (- 5)"
    apply (simp add: negativeRequest_def fillForm_def parse_simps)
    apply (subst fl_eval [where e = 2])
        apply (simp_all add: round_even_simps)
    done
  from invalid_amount_rejection [where st = negativeRequest and now = 0 and stamp = "[]"] f
  have "(error (handleTransfer 0 [] negativeRequest) = message InvalidAmount) =
        (isNaN (parseFloat (form_amount (transferForm negativeRequest)))
         \<or> num_le (parseFloat (form_amount (transferForm negativeRequest))) (Fin 0))"
    by blast
  then have n: "error (handleTransfer 0 [] negativeRequest) = message InvalidAmount"
    by (simp only: a) simp
  let ?src = "\<lparr>acc_id = ''mpesa_kes_1'', acc_name = ''Mpesa_KES_1'', acc_currency = KES,
          acc_balance = Fin 2500000\<rparr>"
  let ?dst = "\<lparr>acc_id = ''mpesa_kes_2'', acc_name = ''Mpesa_KES_2'', acc_currency = KES,
          acc_balance = Fin 1800000\<rparr>"
  have d: "dec ''100'' = 100" by (simp add: dec_def digit_val_def)
  have v: "fl (of_nat (dec ''100'')) = Fin 100" by (simp add: d fl_numeral)
  have g: "form_amount (transferForm suffixRequest) = ''100'' @ CHR ''a'' # ''bc''"
    "form_fromAccount (transferForm suffixRequest) = ''mpesa_kes_1''"
    "form_toAccount (transferForm suffixRequest) = ''mpesa_kes_2''"
    by (simp_all add: suffixRequest_def fillForm_def)
  have h: "find (\<lambda>acc. acc_id acc = form_fromAccount (transferForm suffixRequest))
             (accounts suffixRequest) = Some ?src"
    "find (\<lambda>acc. acc_id acc = form_toAccount (transferForm suffixRequest))
             (accounts suffixRequest) = Some ?dst"
    by (simp_all add: suffixRequest_def initialState_def initialAccounts_def fillForm_def)
  have k: "\<not> num_lt (acc_balance ?src) (fl (of_nat (dec ''100'')))"
    "calculateFXConversion (fl (of_nat (dec ''100''))) (acc_currency ?src) (acc_currency ?dst)
       = Some (Fin 100)"
    "truthy (Fin 100)"
    by (simp_all add: v calculateFXConversion_def truthy_def)
  have dg: "''100'' \<noteq> [] \<and> (\<forall>c\<in>set ''100''. is_digit c) \<and> 0 < dec ''100''
      \<and> \<not> is_digit CHR ''a'' \<and> CHR ''a'' \<noteq> CHR ''.'' \<and> CHR ''a'' \<noteq> CHR ''e''
      \<and> CHR ''a'' \<noteq> CHR ''E''"
    by (simp add: d is_digit_def)
  from invalid_amount_rejection [where st = suffixRequest and now = 0 and stamp = "[]"
      and ds = "''100''" and j = "CHR ''a''" and t = "''bc''" and src = ?src and dst = ?dst
      and conv = "Fin 100"] dg g h k
  have s: "parseFloat (''100'' @ CHR ''a'' # ''bc'') = fl (of_nat (dec ''100''))"
    "handleTransfer 0 [] suffixRequest =
       applyTransfer 0 [] suffixRequest ?src ?dst (fl (of_nat (dec ''100''))) (Fin 100) (Fin 1)"
    by simp_all
  have p: "parseFloat ''100abc'' = Fin 100" using s(1) by (simp only: v) simp
  have e: "error (handleTransfer 0 [] suffixRequest) = []"
    by (simp only: s(2) applyTransfer_fields)
  have tx: "map tx_amount (transactions (handleTransfer 0 [] suffixRequest)) = [Fin 100]"
    by (simp only: s(2) applyTransfer_fields v) (simp add: suffixRequest_def initialState_def)
  have acc: "map (\<lambda>acc. (acc_id acc, acc_balance acc))
        (take 2 (accounts (handleTransfer 0 [] suffixRequest))) =
      [(''mpesa_kes_1'', Fin 2499900), (''mpesa_kes_2'', Fin 1800100)]"
    by (simp only: s(2) applyTransfer_fields v)
       (simp add: suffixRequest_def initialState_def initialAccounts_def fillForm_def
          num_sub_def fl_numeral)
  from f a n g(1) d p e tx acc show ?thesis by simp
qed

section \<open>Currency totals\<close>

lemma wholeE:
  assumes "whole b"
  obtains k :: int where "0 \<le> k" and "b = Fin (of_int k)"
proof -
  from assms obtain x where x: "b = Fin x" "0 \<le> x" "x = of_int \<lfloor>x\<rfloor>"
    by (auto simp: whole_def split: number.splits)
  then have "0 \<le> \<lfloor>x\<rfloor>" by simp
  with x show ?thesis using that by metis
qed

lemma whole_of_int: "0 \<le> k \<Longrightarrow> whole (Fin (of_int k))"
  by (simp add: whole_def)

lemma whole_not_negative: "whole b \<Longrightarrow> 0 \<le> value_of b"
  by (auto simp: whole_def value_of_def split: number.splits)

lemma fl_whole:
  assumes "0 \<le> k" and "rat_of_int k \<le> 2 ^ 53"
  shows "fl (of_int k) = Fin (of_int k)"
proof (rule fl_of_int)
  have "rat_of_int k \<le> of_int (2 ^ 53)" using assms(2) by simp
  then have "k \<le> 2 ^ 53" by (simp only: of_int_le_iff)
  with assms(1) show "\<bar>k\<bar> \<le> 2 ^ 53" by simp
qed

lemma whole_add:
  assumes "whole a" and "whole b" and "value_of a + value_of b \<le> 2 ^ 53"
  shows "num_add a b = Fin (value_of a + value_of b)" and "whole (num_add a b)"
proof -
  from assms(1) obtain i where i: "0 \<le> i" "a = Fin (of_int i)" by (rule wholeE)
  from assms(2) obtain j where j: "0 \<le> j" "b = Fin (of_int j)" by (rule wholeE)
  have "rat_of_int (i + j) \<le> 2 ^ 53" using assms(3) i j by (simp add: value_of_def)
  then have "fl (of_int (i + j)) = Fin (of_int (i + j))" using i(1) j(1) by (intro fl_whole) simp_all
  then have e: "num_add a b = Fin (of_int (i + j))" using i j by simp
  then show "num_add a b = Fin (value_of a + value_of b)" using i j by (simp add: value_of_def)
  show "whole (num_add a b)" unfolding e using i(1) j(1) by (intro whole_of_int) simp
qed

lemma whole_sub:
  assumes "whole a" and "whole b" and "\<not> num_lt b a" and "value_of b \<le> 2 ^ 53"
  shows "num_sub b a = Fin (value_of b - value_of a)" and "whole (num_sub b a)"
proof -
  from assms(1) obtain i where i: "0 \<le> i" "a = Fin (of_int i)" by (rule wholeE)
  from assms(2) obtain j where j: "0 \<le> j" "b = Fin (of_int j)" by (rule wholeE)
  from assms(3) i j have le: "i \<le> j" by simp
  have "rat_of_int (j - i) \<le> rat_of_int j" using i(1) by simp
  also have "\<dots> \<le> 2 ^ 53" using assms(4) j by (simp add: value_of_def)
  finally have "fl (of_int (j - i)) = Fin (of_int (j - i))" using le by (intro fl_whole) simp_all
  then have e: "num_sub b a = Fin (of_int (j - i))" using i j by (simp add: num_sub_def)
  then show "num_sub b a = Fin (value_of b - value_of a)" using i j by (simp add: value_of_def)
  show "whole (num_sub b a)" unfolding e using le by (intro whole_of_int) simp
qed

lemma whole_value: "whole b \<Longrightarrow> Fin (value_of b) = b"
  by (auto simp: whole_def value_of_def split: number.splits)

lemma exact_total_Cons:
  "exact_total c (a # accs) =
     (if acc_currency a = c then value_of (acc_balance a) else 0) + exact_total c accs"
  by (simp add: exact_total_def)

lemma exact_total_nonneg:
  "\<forall>acc \<in> set accs. whole (acc_balance acc) \<Longrightarrow> 0 \<le> exact_total c accs"
  by (induction accs) (auto simp: exact_total_Cons exact_total_def dest: whole_not_negative)

lemma whole_falsy: "whole t \<Longrightarrow> (if truthy t then t else Fin 0) = t"
  by (auto simp: whole_def truthy_def split: number.splits)

text \<open>
  With whole balances and sums of at most \<open>2^53\<close>, the loop of \<open>getTotalByCurrency\<close>
  computes the exact sums.
\<close>

lemma foldl_add_total_whole:
  assumes "\<forall>acc \<in> set accs. whole (acc_balance acc)"
    and "\<forall>c t. m c = Some t \<longrightarrow> whole t"
    and "\<forall>c. value_of (case m c of None \<Rightarrow> Fin 0 | Some t \<Rightarrow> t) + exact_total c accs \<le> 2 ^ 53"
  shows "foldl add_total m accs c =
           (if m c = None \<and> c \<notin> acc_currency ` set accs then None
            else Some (Fin (value_of (case m c of None \<Rightarrow> Fin 0 | Some t \<Rightarrow> t)
                            + exact_total c accs)))"
  using assms
proof (induction accs arbitrary: m)
  case Nil
  show ?case
  proof (cases "m c")
    case None
    then show ?thesis by simp
  next
    case (Some t)
    with Nil.prems(2) have "whole t" by blast
    with Some show ?thesis by (simp add: exact_total_def whole_value)
  qed
next
  case (Cons a accs)
  let ?ca = "acc_currency a"
  let ?old = "case m ?ca of None \<Rightarrow> Fin 0 | Some t \<Rightarrow> t"
  let ?m' = "add_total m a"
  have wa: "whole (acc_balance a)" and wr: "\<forall>acc \<in> set accs. whole (acc_balance acc)"
    using Cons.prems(1) by simp_all
  have wo: "whole ?old"
    using Cons.prems(2) by (cases "m ?ca") (simp_all add: whole_def)
  have base: "(case m ?ca of None \<Rightarrow> Fin 0 | Some t \<Rightarrow> if truthy t then t else Fin 0) = ?old"
    using Cons.prems(2) by (cases "m ?ca") (simp_all add: whole_falsy)
  have nn: "0 \<le> exact_total ?ca accs" using wr by (rule exact_total_nonneg)
  have "value_of ?old + exact_total ?ca (a # accs) \<le> 2 ^ 53" using Cons.prems(3) by blast
  then have b: "value_of ?old + value_of (acc_balance a) + exact_total ?ca accs \<le> 2 ^ 53"
    by (simp add: exact_total_Cons)
  with nn have "value_of ?old + value_of (acc_balance a) \<le> 2 ^ 53" by linarith
  from whole_add [OF wo wa this]
  have new: "num_add ?old (acc_balance a) = Fin (value_of ?old + value_of (acc_balance a))"
    and wn: "whole (num_add ?old (acc_balance a))" by simp_all
  have m': "?m' = m(?ca \<mapsto> Fin (value_of ?old + value_of (acc_balance a)))"
    by (simp add: add_total_def base new)
  have p2: "\<forall>c t. ?m' c = Some t \<longrightarrow> whole t"
    using Cons.prems(2) wn new by (auto simp: m')
  have p3: "\<forall>c. value_of (case ?m' c of None \<Rightarrow> Fin 0 | Some t \<Rightarrow> t) + exact_total c accs
              \<le> 2 ^ 53"
  proof
    fix d
    show "value_of (case ?m' d of None \<Rightarrow> Fin 0 | Some t \<Rightarrow> t) + exact_total d accs \<le> 2 ^ 53"
    proof (cases "d = ?ca")
      case True
      with b show ?thesis by (simp add: m' value_of_def)
    next
      case False
      with Cons.prems(3) [rule_format, of d] show ?thesis
        by (simp add: m' exact_total_Cons)
    qed
  qed
  have "foldl add_total m (a # accs) c = foldl add_total ?m' accs c" by simp
  also have "\<dots> =
       (if ?m' c = None \<and> c \<notin> acc_currency ` set accs then None
        else Some (Fin (value_of (case ?m' c of None \<Rightarrow> Fin 0 | Some t \<Rightarrow> t)
                        + exact_total c accs)))"
    by (rule Cons.IH [OF wr p2 p3])
  also have "\<dots> =
       (if m c = None \<and> c \<notin> acc_currency ` set (a # accs) then None
        else Some (Fin (value_of (case m c of None \<Rightarrow> Fin 0 | Some t \<Rightarrow> t)
                        + exact_total c (a # accs))))"
  proof (cases "c = ?ca")
    case True
    then show ?thesis by (simp add: m' exact_total_Cons value_of_def)
  next
    case False
    then show ?thesis by (auto simp: m' exact_total_Cons)
  qed
  finally show ?case .
qed

lemma getTotalByCurrency_whole:
  assumes "\<forall>acc \<in> set (accounts st). whole (acc_balance acc)"
    and "\<forall>c. exact_total c (accounts st) \<le> 2 ^ 53"
  shows "getTotalByCurrency st c =
           (if c \<notin> acc_currency ` set (accounts st) then None
            else Some (Fin (exact_total c (accounts st))))"
  unfolding getTotalByCurrency_def
  using assms by (subst foldl_add_total_whole) (simp_all add: value_of_def)

lemma sum_list_other_ids:
  "i \<notin> acc_id ` set xs \<Longrightarrow>
   sum_list (map (\<lambda>acc. if acc_id acc = i then v else (0::rat)) (filter P xs)) = 0"
  by (induction xs) auto

lemma sum_list_single_id:
  assumes "distinct (map acc_id xs)" and "x \<in> set xs"
  shows "sum_list (map (\<lambda>acc. if acc_id acc = acc_id x then v else (0::rat)) (filter P xs)) =
           (if P x then v else 0)"
  using assms
proof (induction xs)
  case Nil
  then show ?case by simp
next
  case (Cons y ys)
  show ?case
  proof (cases "y = x")
    case True
    with Cons.prems(1) have "acc_id x \<notin> acc_id ` set ys" by simp
    then have "sum_list (map (\<lambda>acc. if acc_id acc = acc_id x then v else 0) (filter P ys)) = 0"
      by (rule sum_list_other_ids)
    with True show ?thesis by simp
  next
    case False
    with Cons.prems have x: "x \<in> set ys" and d: "distinct (map acc_id ys)"
      and ne: "acc_id y \<noteq> acc_id x" by auto
    from Cons.IH [OF d x] ne show ?thesis by simp
  qed
qed

lemma member_le_sum_list_map:
  fixes f :: "'a \<Rightarrow> rat"
  assumes "x \<in> set xs" and "\<forall>y \<in> set xs. 0 \<le> f y"
  shows "f x \<le> sum_list (map f xs)"
  using assms
proof (induction xs)
  case Nil
  then show ?case by simp
next
  case (Cons y ys)
  have nn: "0 \<le> sum_list (map f ys)" using Cons.prems(2) by (intro sum_list_nonneg) auto
  show ?case
  proof (cases "x = y")
    case True
    with nn show ?thesis by simp
  next
    case False
    with Cons have "f x \<le> sum_list (map f ys)" by simp
    moreover have "0 \<le> f y" using Cons.prems(2) by simp
    ultimately show ?thesis by simp
  qed
qed

lemma member_le_exact_total:
  assumes "\<forall>acc \<in> set accs. whole (acc_balance acc)" and "x \<in> set accs"
  shows "value_of (acc_balance x) \<le> exact_total (acc_currency x) accs"
proof -
  let ?f = "\<lambda>acc. value_of (acc_balance acc)"
  let ?xs = "filter (\<lambda>acc. acc_currency acc = acc_currency x) accs"
  have "x \<in> set ?xs" using assms(2) by simp
  moreover have "\<forall>acc \<in> set ?xs. 0 \<le> ?f acc" using assms(1) by (auto dest: whole_not_negative)
  ultimately have "?f x \<le> sum_list (map ?f ?xs)" by (rule member_le_sum_list_map)
  then show ?thesis by (simp add: exact_total_def)
qed

lemma two_members_le_exact_total:
  assumes "\<forall>acc \<in> set accs. whole (acc_balance acc)"
    and "x \<in> set accs" and "y \<in> set accs" and "x \<noteq> y"
    and "acc_currency x = acc_currency y"
  shows "value_of (acc_balance x) + value_of (acc_balance y) \<le> exact_total (acc_currency x) accs"
proof -
  let ?f = "\<lambda>acc. value_of (acc_balance acc)"
  let ?xs = "filter (\<lambda>acc. acc_currency acc = acc_currency x) accs"
  have x: "x \<in> set ?xs" using assms(2) by simp
  have y: "y \<in> set (remove1 x ?xs)" using assms(3,4,5) by simp
  have nn: "\<forall>acc \<in> set (remove1 x ?xs). 0 \<le> ?f acc"
    using assms(1) by (auto dest: whole_not_negative notin_set_remove1)
  have "sum_list (map ?f ?xs) = ?f x + sum_list (map ?f (remove1 x ?xs))"
    using x by (rule sum_list_map_remove1)
  moreover have "?f y \<le> sum_list (map ?f (remove1 x ?xs))"
    using y nn by (rule member_le_sum_list_map)
  ultimately show ?thesis by (simp add: exact_total_def)
qed

lemma map_currency_update:
  "map acc_currency
     (map (\<lambda>acc. if P acc then acc\<lparr>acc_balance := f acc\<rparr>
                 else if Q acc then acc\<lparr>acc_balance := g acc\<rparr> else acc) xs) =
   map acc_currency xs"
  by (induction xs) simp_all

text \<open>
  Claim C10, as amended. Let a transfer between two accounts of the same currency succeed,
  in a ledger whose account ids are pairwise distinct, whose balances are whole numbers
  (not negative) that add up to at most \<open>2^53\<close> in each currency, for an amount that is
  a whole number. Then the mapping of currency totals is the same before and after the
  transfer.
\<close>

theorem whole_totals_unchanged:
  assumes ok: "error (handleTransfer now stamp st) = []"
    and src: "find (\<lambda>acc. acc_id acc = form_fromAccount (transferForm st)) (accounts st) = Some src"
    and dst: "find (\<lambda>acc. acc_id acc = form_toAccount (transferForm st)) (accounts st) = Some dst"
    and same: "acc_currency src = acc_currency dst"
    and ids: "distinct (map acc_id (accounts st))"
    and wh: "\<forall>acc \<in> set (accounts st). whole (acc_balance acc)"
    and amt: "whole (parseFloat (form_amount (transferForm st)))"
    and bound: "\<forall>c. exact_total c (accounts st) \<le> 2 ^ 53"
  shows "getTotalByCurrency (handleTransfer now stamp st) = getTotalByCurrency st"
proof (cases rule: handleTransfer_cases [of now stamp st])
  case (failed e)
  with ok show ?thesis by simp
next
  case (applied src' dst' conv rate)
  let ?f = "transferForm st"
  let ?a = "parseFloat (form_amount ?f)"
  let ?va = "value_of ?a"
  let ?accs = "accounts st"
  let ?upd = "\<lambda>acc.
     if acc_id acc = form_fromAccount ?f
     then acc\<lparr>acc_balance := num_sub (acc_balance acc) ?a\<rparr>
     else if acc_id acc = form_toAccount ?f
     then acc\<lparr>acc_balance := num_add (acc_balance acc) conv\<rparr>
     else acc"
  let ?d = "\<lambda>acc. (if acc_id acc = acc_id src then - ?va else 0)
                 + (if acc_id acc = acc_id dst then ?va else 0)"
  have s': "src' = src" "dst' = dst" using applied(7,8) src dst by simp_all
  have conv: "conv = ?a" using applied(10) same by (simp add: s' calculateFXConversion_def)
  have accs': "accounts (handleTransfer now stamp st) = map ?upd ?accs"
    by (simp only: applied(13) applyTransfer_fields)
  have sid: "acc_id src = form_fromAccount ?f" and did: "acc_id dst = form_toAccount ?f"
    and sin: "src \<in> set ?accs" and din: "dst \<in> set ?accs"
    using find_SomeD [OF src] find_SomeD [OF dst] by simp_all
  have ne: "src \<noteq> dst" using sid did applied(4) by auto
  have ws: "whole (acc_balance src)" and wd: "whole (acc_balance dst)" using wh sin din by simp_all
  have sb: "value_of (acc_balance src) \<le> 2 ^ 53"
    using member_le_exact_total [OF wh sin] bound [rule_format, of "acc_currency src"] by simp
  have le: "?va \<le> value_of (acc_balance src)"
  proof -
    from amt obtain i where i: "0 \<le> i" "?a = Fin (of_int i)" by (rule wholeE)
    from ws obtain j where j: "0 \<le> j" "acc_balance src = Fin (of_int j)" by (rule wholeE)
    from applied(9) s' i j show ?thesis by (simp add: value_of_def)
  qed
  have "value_of (acc_balance dst) + ?va \<le> value_of (acc_balance src) + value_of (acc_balance dst)"
    using le by simp
  also have "\<dots> \<le> exact_total (acc_currency src) ?accs"
    by (rule two_members_le_exact_total [OF wh sin din ne same])
  also have "\<dots> \<le> 2 ^ 53" using bound by blast
  finally have db: "value_of (acc_balance dst) + ?va \<le> 2 ^ 53" .
  note sub = whole_sub [OF amt ws _ sb]
  note add = whole_add [OF wd amt db]
  have nlt: "\<not> num_lt (acc_balance src) ?a" using applied(9) by (simp add: s')
  have each: "whole (acc_balance (?upd acc))
      \<and> value_of (acc_balance (?upd acc)) = value_of (acc_balance acc) + ?d acc"
    if "acc \<in> set ?accs" for acc
  proof (cases "acc_id acc = form_fromAccount ?f")
    case True
    then have "acc = src" using same_id_same_account [OF ids src that] sid by simp
    with True sub [OF nlt] sid did applied(4) show ?thesis by (simp add: value_of_def)
  next
    case False
    show ?thesis
    proof (cases "acc_id acc = form_toAccount ?f")
      case True
      then have "acc = dst" using same_id_same_account [OF ids dst that] did by simp
      with True False add sid did conv show ?thesis by (simp add: value_of_def)
    next
      case no: False
      with False wh that sid did show ?thesis by simp
    qed
  qed
  have wh': "\<forall>acc \<in> set (accounts (handleTransfer now stamp st)). whole (acc_balance acc)"
  proof
    fix acc'
    assume "acc' \<in> set (accounts (handleTransfer now stamp st))"
    then obtain acc where "acc \<in> set ?accs" and "acc' = ?upd acc"
      unfolding accs' by (auto simp only: set_map)
    with each [of acc] show "whole (acc_balance acc')" by (simp only:)
  qed
  have cur: "acc_currency ` set (accounts (handleTransfer now stamp st)) = acc_currency ` set ?accs"
    unfolding accs' set_map [symmetric] by (simp only: map_currency_update)
  have tot: "exact_total c (accounts (handleTransfer now stamp st)) = exact_total c ?accs" for c
  proof -
    let ?xs = "filter (\<lambda>acc. acc_currency acc = c) ?accs"
    have "filter (\<lambda>acc. acc_currency acc = c) (map ?upd ?accs) = map ?upd ?xs"
      by (simp add: filter_map comp_def if_distrib [of acc_currency] cong: if_cong)
    then have "exact_total c (accounts (handleTransfer now stamp st)) =
          sum_list (map (\<lambda>acc. value_of (acc_balance (?upd acc))) ?xs)"
      by (simp add: exact_total_def accs' comp_def)
    also have "\<dots> = sum_list (map (\<lambda>acc. value_of (acc_balance acc) + ?d acc) ?xs)"
      using each by (intro arg_cong [where f = sum_list] map_cong) auto
    also have "\<dots> = exact_total c ?accs + sum_list (map ?d ?xs)"
      by (simp add: sum_list_addf exact_total_def)
    also have "sum_list (map ?d ?xs) =
        sum_list (map (\<lambda>acc. if acc_id acc = acc_id src then - ?va else 0) ?xs)
        + sum_list (map (\<lambda>acc. if acc_id acc = acc_id dst then ?va else 0) ?xs)"
      by (rule sum_list_addf)
    also have "\<dots> = (if acc_currency src = c then - ?va else 0)
                     + (if acc_currency dst = c then ?va else 0)"
      by (simp only: sum_list_single_id [OF ids sin] sum_list_single_id [OF ids din])
    also have "\<dots> = 0" using same by simp
    finally show ?thesis by simp
  qed
  have bound': "\<forall>c. exact_total c (accounts (handleTransfer now stamp st)) \<le> 2 ^ 53"
    using bound by (simp add: tot)
  show ?thesis
  proof
    fix c
    show "getTotalByCurrency (handleTransfer now stamp st) c = getTotalByCurrency st c"
      by (simp only: getTotalByCurrency_whole [OF wh' bound'] getTotalByCurrency_whole [OF wh bound]
          cur tot)
  qed
qed

text \<open>
  The theorem at a transfer of 2,500 NGN from Flutterwave_NGN_1 to Paystack_NGN_1 in the seed
  ledger: the NGN total is 35,500,000 before and after.
\<close>

theorem whole_totals_unchanged_witness:
  "error (handleTransfer 0 [] wholeRequest) = []
   \<and> map (\<lambda>acc. (acc_id acc, acc_balance acc))
        (filter (\<lambda>acc. acc_currency acc = NGN) (accounts (handleTransfer 0 [] wholeRequest))) =
       [(''flutterwave_ngn_1'', Fin 14997500), (''flutterwave_ngn_2'', Fin 8500000),
        (''paystack_ngn_1'', Fin 12002500)]
   \<and> getTotalByCurrency wholeRequest NGN = Some (Fin 35500000)
   \<and> getTotalByCurrency (handleTransfer 0 [] wholeRequest) = getTotalByCurrency wholeRequest"
proof -
  let ?src = "\<lparr>acc_id = ''flutterwave_ngn_1'', acc_name = ''Flutterwave_NGN_1'',
                acc_currency = NGN, acc_balance = Fin 15000000\<rparr>"
  let ?dst = "\<lparr>acc_id = ''paystack_ngn_1'', acc_name = ''Paystack_NGN_1'',
                acc_currency = NGN, acc_balance = Fin 12000000\<rparr>"
  have a: "parseFloat ''2500'' = Fin 2500" by (simp add: parse_simps)
  have run: "handleTransfer 0 [] wholeRequest =
      applyTransfer 0 [] wholeRequest ?src ?dst (Fin 2500) (Fin 2500) (Fin 1)"
    by (simp add: handleTransfer_def Let_def wholeRequest_def initialState_def
        initialAccounts_def fillForm_def a isNaN_def)
  have ok: "error (handleTransfer 0 [] wholeRequest) = []"
    by (simp add: run applyTransfer_fields)
  have src: "find (\<lambda>acc. acc_id acc = form_fromAccount (transferForm wholeRequest))
               (accounts wholeRequest) = Some ?src"
    by (simp add: wholeRequest_def initialState_def initialAccounts_def fillForm_def)
  have dst: "find (\<lambda>acc. acc_id acc = form_toAccount (transferForm wholeRequest))
               (accounts wholeRequest) = Some ?dst"
    by (simp add: wholeRequest_def initialState_def initialAccounts_def fillForm_def)
  have same: "acc_currency ?src = acc_currency ?dst" by simp
  have ids: "distinct (map acc_id (accounts wholeRequest))"
    by (simp add: wholeRequest_def initialState_def initialAccounts_def)
  have wh: "\<forall>acc \<in> set (accounts wholeRequest). whole (acc_balance acc)"
    by (simp add: wholeRequest_def initialState_def initialAccounts_def whole_def)
  have amt: "whole (parseFloat (form_amount (transferForm wholeRequest)))"
    by (simp add: wholeRequest_def fillForm_def a whole_def)
  have bound: "\<forall>c. exact_total c (accounts wholeRequest) \<le> 2 ^ 53"
  proof
    fix c
    show "exact_total c (accounts wholeRequest) \<le> 2 ^ 53"
      by (cases c)
        (simp_all add: exact_total_def wholeRequest_def initialState_def initialAccounts_def
          value_of_def)
  qed
  have t: "getTotalByCurrency wholeRequest NGN = Some (Fin 35500000)"
    by (simp add: getTotalByCurrency_def wholeRequest_def initialState_def initialAccounts_def
        add_total_def truthy_def fl_numeral fl_zero_one)
  have accs: "map (\<lambda>acc. (acc_id acc, acc_balance acc))
        (filter (\<lambda>acc. acc_currency acc = NGN) (accounts (handleTransfer 0 [] wholeRequest))) =
       [(''flutterwave_ngn_1'', Fin 14997500), (''flutterwave_ngn_2'', Fin 8500000),
        (''paystack_ngn_1'', Fin 12002500)]"
    by (simp add: run applyTransfer_fields)
       (simp add: wholeRequest_def initialState_def initialAccounts_def fillForm_def num_sub_def
          fl_numeral)
  from whole_totals_unchanged [OF ok src dst same ids wh amt bound] ok accs t
  show ?thesis by simp
qed

text \<open>
  Claim C10 as first stated fails, because every sum is rounded. In \<open>fractionState\<close>
  (reached from the seed state by a transfer of 1 KES into Bank_USD_1) the USD total is
  \<open>8589934822210247 / 2^35\<close>. The transfer of 0.01 USD from Bank_USD_1 to Wise_USD_1
  succeeds, and afterwards the USD total is \<open>4294967411105123 / 2^34\<close>, which is smaller by
  \<open>2^-35\<close>.
\<close>

lemma c10_conv: "fl (7724574080865875 / 1152921504606846976) = Fin (7724574080865875 / 1152921504606846976)"
  by (subst fl_eval [where e = "- 8"]) (simp_all add: round_even_simps)

lemma c10_b1: "fl (51881475431882194785875 / 1152921504606846976) = Fin (1546188456770247 / 34359738368)"
  by (subst fl_eval [where e = 15]) (simp_all add: round_even_simps)

lemma c10_a: "fl (1 / 100) = Fin (5764607523034235 / 576460752303423488)"
  by (subst fl_eval [where e = "- 7"]) (simp_all add: round_even_simps)

lemma c10_src: "fl (25940731951333573258117 / 576460752303423488) = Fin (6184752452691453 / 137438953472)"
  by (subst fl_eval [where e = 15]) (simp_all add: round_even_simps)

lemma c10_dst: "fl (54763777233432754394235 / 576460752303423488) = Fin (6528350977114767 / 68719476736)"
  by (subst fl_eval [where e = 16]) (simp_all add: round_even_simps)

lemma c10_t0: "fl (1546188456770247 / 34359738368) = Fin (1546188456770247 / 34359738368)"
  by (subst fl_eval [where e = 15]) (simp_all add: round_even_simps)

lemma c10_t1: "fl (4226248049474247 / 34359738368) = Fin (4226248049474247 / 34359738368)"
  by (subst fl_eval [where e = 16]) (simp_all add: round_even_simps)

lemma c10_t2: "fl (5325759677250247 / 34359738368) = Fin (5325759677250247 / 34359738368)"
  by (subst fl_eval [where e = 17]) (simp_all add: round_even_simps)

lemma c10_t3: "fl (8589934822210247 / 34359738368) = Fin (8589934822210247 / 34359738368)"
  by (subst fl_eval [where e = 17]) (simp_all add: round_even_simps)

lemma c10_u0: "fl (6184752452691453 / 137438953472) = Fin (6184752452691453 / 137438953472)"
  by (subst fl_eval [where e = 15]) (simp_all add: round_even_simps)

lemma c10_u1: "fl (16904990823507453 / 137438953472) = Fin (4226247705876863 / 34359738368)"
  by (subst fl_eval [where e = 16]) (simp_all add: round_even_simps)

lemma c10_u2: "fl (5325759333652863 / 34359738368) = Fin (5325759333652863 / 34359738368)"
  by (subst fl_eval [where e = 17]) (simp_all add: round_even_simps)

lemma c10_u3: "fl (17179869644420493 / 68719476736) = Fin (4294967411105123 / 17179869184)"
  by (subst fl_eval [where e = 17]) (simp_all add: round_even_simps)

lemmas c10_fl = c10_conv c10_b1 c10_a c10_src c10_dst c10_t0 c10_t1 c10_t2 c10_t3
  c10_u0 c10_u1 c10_u2 c10_u3

lemma fractionState_eq:
  "fractionState =
     \<lparr>accounts =
        [\<lparr>acc_id = ''mpesa_kes_1'', acc_name = ''Mpesa_KES_1'', acc_currency = KES,
           acc_balance = Fin 2499999\<rparr>,
         \<lparr>acc_id = ''mpesa_kes_2'', acc_name = ''Mpesa_KES_2'', acc_currency = KES,
           acc_balance = Fin 1800000\<rparr>,
         \<lparr>acc_id = ''bank_kes_1'', acc_name = ''Bank_KES_1'', acc_currency = KES,
           acc_balance = Fin 5200000\<rparr>,
         \<lparr>acc_id = ''bank_usd_1'', acc_name = ''Bank_USD_1'', acc_currency = USD,
           acc_balance = Fin (1546188456770247 / 34359738368)\<rparr>,
         \<lparr>acc_id = ''bank_usd_2'', acc_name = ''Bank_USD_2'', acc_currency = USD,
           acc_balance = Fin 78000\<rparr>,
         \<lparr>acc_id = ''bank_usd_3'', acc_name = ''Bank_USD_3'', acc_currency = USD,
           acc_balance = Fin 32000\<rparr>,
         \<lparr>acc_id = ''flutterwave_ngn_1'', acc_name = ''Flutterwave_NGN_1'', acc_currency = NGN,
           acc_balance = Fin 15000000\<rparr>,
         \<lparr>acc_id = ''flutterwave_ngn_2'', acc_name = ''Flutterwave_NGN_2'', acc_currency = NGN,
           acc_balance = Fin 8500000\<rparr>,
         \<lparr>acc_id = ''paystack_ngn_1'', acc_name = ''Paystack_NGN_1'', acc_currency = NGN,
           acc_balance = Fin 12000000\<rparr>,
         \<lparr>acc_id = ''wise_usd_1'', acc_name = ''Wise_USD_1'', acc_currency = USD,
           acc_balance = Fin 95000\<rparr>],
      transactions =
        [\<lparr>tx_id = toString 1730000000000, tx_timestamp = [],
          tx_fromAccount = ''Mpesa_KES_1'', tx_toAccount = ''Bank_USD_1'',
          tx_fromCurrency = KES, tx_toCurrency = USD, tx_amount = Fin 1,
          tx_convertedAmount = Fin (7724574080865875 / 1152921504606846976), tx_fxRate = Fin (7724574080865875 / 1152921504606846976), tx_note = [],
          tx_scheduledDate = None, tx_status = Completed\<rparr>],
      transferForm = fillForm ''bank_usd_1'' ''wise_usd_1'' ''0.01'',
      filters = emptyFilters, showFilters = False, error = [],
      success = ''Transfer completed successfully!''\<rparr>"
  by (simp add: fractionState_def fractionEvents_def run_def initialState_def initialAccounts_def
      emptyForm_def fillForm_def handleTransfer_def Let_def parse_simps isNaN_def
      applyTransfer_def num_sub_def calculateFXConversion_def FX_RATES_values truthy_def
      c10_fl toLowerCase_def lower_char_def char_of_eq_iff)

lemma fraction_transfer:
  "error (handleTransfer 0 [] fractionState) = [] \<and>
   accounts (handleTransfer 0 [] fractionState) =
     [\<lparr>acc_id = ''mpesa_kes_1'', acc_name = ''Mpesa_KES_1'', acc_currency = KES,
        acc_balance = Fin 2499999\<rparr>,
      \<lparr>acc_id = ''mpesa_kes_2'', acc_name = ''Mpesa_KES_2'', acc_currency = KES,
        acc_balance = Fin 1800000\<rparr>,
      \<lparr>acc_id = ''bank_kes_1'', acc_name = ''Bank_KES_1'', acc_currency = KES,
        acc_balance = Fin 5200000\<rparr>,
      \<lparr>acc_id = ''bank_usd_1'', acc_name = ''Bank_USD_1'', acc_currency = USD,
        acc_balance = Fin (6184752452691453 / 137438953472)\<rparr>,
      \<lparr>acc_id = ''bank_usd_2'', acc_name = ''Bank_USD_2'', acc_currency = USD,
        acc_balance = Fin 78000\<rparr>,
      \<lparr>acc_id = ''bank_usd_3'', acc_name = ''Bank_USD_3'', acc_currency = USD,
        acc_balance = Fin 32000\<rparr>,
      \<lparr>acc_id = ''flutterwave_ngn_1'', acc_name = ''Flutterwave_NGN_1'', acc_currency = NGN,
        acc_balance = Fin 15000000\<rparr>,
      \<lparr>acc_id = ''flutterwave_ngn_2'', acc_name = ''Flutterwave_NGN_2'', acc_currency = NGN,
        acc_balance = Fin 8500000\<rparr>,
      \<lparr>acc_id = ''paystack_ngn_1'', acc_name = ''Paystack_NGN_1'', acc_currency = NGN,
        acc_balance = Fin 12000000\<rparr>,
      \<lparr>acc_id = ''wise_usd_1'', acc_name = ''Wise_USD_1'', acc_currency = USD,
        acc_balance = Fin (6528350977114767 / 68719476736)\<rparr>]"
  by (simp add: fractionState_eq fillForm_def handleTransfer_def Let_def parse_simps isNaN_def
      applyTransfer_def num_sub_def calculateFXConversion_def c10_fl)

text \<open>
  Claim C10 at the failing input: the transfer succeeds, both accounts hold USD, and the
  totals differ.
\<close>

theorem totals_change_by_rounding:
  "error (handleTransfer 0 [] fractionState) = []
   \<and> map acc_currency
        (filter (\<lambda>acc. acc_id acc = ''bank_usd_1'' \<or> acc_id acc = ''wise_usd_1'')
           (accounts fractionState)) = [USD, USD]
   \<and> getTotalByCurrency fractionState USD = Some (Fin (8589934822210247 / 34359738368))
   \<and> getTotalByCurrency (handleTransfer 0 [] fractionState) USD =
       Some (Fin (4294967411105123 / 17179869184))
   \<and> getTotalByCurrency (handleTransfer 0 [] fractionState) \<noteq> getTotalByCurrency fractionState"
proof -
  have b: "getTotalByCurrency fractionState USD = Some (Fin (8589934822210247 / 34359738368))"
    by (simp add: getTotalByCurrency_def fractionState_eq add_total_def truthy_def fl_numeral
        fl_zero_one c10_fl)
  have a: "getTotalByCurrency (handleTransfer 0 [] fractionState) USD =
       Some (Fin (4294967411105123 / 17179869184))"
    by (simp add: getTotalByCurrency_def fraction_transfer add_total_def truthy_def fl_numeral
        fl_zero_one c10_fl)
  have "getTotalByCurrency (handleTransfer 0 [] fractionState) USD
        \<noteq> getTotalByCurrency fractionState USD"
    by (simp add: a b)
  then have "getTotalByCurrency (handleTransfer 0 [] fractionState)
        \<noteq> getTotalByCurrency fractionState" by auto
  moreover have "map acc_currency
        (filter (\<lambda>acc. acc_id acc = ''bank_usd_1'' \<or> acc_id acc = ''wise_usd_1'')
           (accounts fractionState)) = [USD, USD]"
    by (simp add: fractionState_eq)
  ultimately show ?thesis using a b fraction_transfer by simp
qed

end
